theory Spec2Isabelle
  imports Complex_Main
begin

section \<open>Conventions of the embedding\<close>

text \<open>
  The Python sources under \<^verbatim>\<open>src/bot\<close> are embedded function by function.
  Python's unbounded \<^verbatim>\<open>int\<close> is \<^typ>\<open>int\<close>. Python's \<^verbatim>\<open>float\<close> is idealised as
  \<^typ>\<open>real\<close>: rounding is not modelled, so every statement below is about the
  exact value of the arithmetic expression the code writes down. The operations that
  can raise (true division by zero, \<^verbatim>\<open>math.sqrt\<close> of a negative number) return a sum
  type whose left injection is the exception.
\<close>

datatype py_error = ZeroDivisionError | ValueError

definition py_div :: "real \<Rightarrow> real \<Rightarrow> py_error + real" where
  "py_div a b = (if b = 0 then Inl ZeroDivisionError else Inr (a / b))"

definition py_sqrt :: "real \<Rightarrow> py_error + real" where
  "py_sqrt x = (if x < 0 then Inl ValueError else Inr (sqrt x))"

definition py_trunc :: "real \<Rightarrow> int" where
  \<comment> \<open>\<^verbatim>\<open>int(x)\<close> on a float: truncation towards zero.\<close>
  "py_trunc x = (if 0 \<le> x then \<lfloor>x\<rfloor> else \<lceil>x\<rceil>)"

section \<open>TrajectoryAnalyzer.py: PlayerTrajectory\<close>

record PlayerTrajectory =
  name :: string
  strategy :: string
  initial_stack :: int
  stack_history :: "int list"
  profit_history :: "int list"
  hand_results :: "int list"
  final_stack :: int
  total_profit :: int
  peak_stack :: int
  min_stack :: int
  max_drawdown :: int
  max_drawdown_pct :: real
  volatility :: real
  sharpe_ratio :: real
  longest_win_streak :: int
  longest_lose_streak :: int
  hands_won :: int
  hands_lost :: int

definition new_trajectory ::
  "string \<Rightarrow> string \<Rightarrow> int \<Rightarrow> int list \<Rightarrow> int list \<Rightarrow> int list \<Rightarrow> PlayerTrajectory" where
  \<comment> \<open>The dataclass constructor: the three series as given, every computed metric at
      its declared default.\<close>
  "new_trajectory nm strat init sh ph hr =
     \<lparr> name = nm, strategy = strat, initial_stack = init,
       stack_history = sh, profit_history = ph, hand_results = hr,
       final_stack = 0, total_profit = 0, peak_stack = 0, min_stack = 0,
       max_drawdown = 0, max_drawdown_pct = 0, volatility = 0, sharpe_ratio = 0,
       longest_win_streak = 0, longest_lose_streak = 0, hands_won = 0, hands_lost = 0 \<rparr>"

text \<open>The drawdown loop: \<^verbatim>\<open>for stack in self.stack_history\<close> with the running
  \<^verbatim>\<open>peak\<close> and \<^verbatim>\<open>max_dd\<close>.\<close>

fun drawdown_scan :: "int \<Rightarrow> int \<Rightarrow> int list \<Rightarrow> int \<times> int" where
  "drawdown_scan peak max_dd [] = (peak, max_dd)"
| "drawdown_scan peak max_dd (stack # rest) =
     (let peak' = (if stack > peak then stack else peak);
          dd = peak' - stack;
          max_dd' = (if dd > max_dd then dd else max_dd)
      in drawdown_scan peak' max_dd' rest)"

text \<open>The streak loop. Its state is \<^verbatim>\<open>(hands_won, hands_lost, current_streak,
  is_winning, max_win, max_lose)\<close>; \<^verbatim>\<open>is_winning\<close> starts as \<^verbatim>\<open>None\<close>.\<close>

record streak_state =
  s_hands_won :: int
  s_hands_lost :: int
  current_streak :: int
  is_winning :: "bool option"
  max_win :: int
  max_lose :: int

fun streak_step :: "streak_state \<Rightarrow> int \<Rightarrow> streak_state" where
  "streak_step s result =
     (if result > 0 then
        (let cs = (if is_winning s = Some True then current_streak s + 1 else 1)
         in s\<lparr> s_hands_won := s_hands_won s + 1, current_streak := cs,
                is_winning := Some True, max_win := max (max_win s) cs \<rparr>)
      else if result < 0 then
        (let cs = (if is_winning s = Some False then current_streak s + 1 else 1)
         in s\<lparr> s_hands_lost := s_hands_lost s + 1, current_streak := cs,
                is_winning := Some False, max_lose := max (max_lose s) cs \<rparr>)
      else s)"

definition py_max_list :: "int list \<Rightarrow> int" where
  "py_max_list xs = fold max (tl xs) (hd xs)"

definition py_min_list :: "int list \<Rightarrow> int" where
  "py_min_list xs = fold min (tl xs) (hd xs)"

definition compute_volatility :: "PlayerTrajectory \<Rightarrow> py_error + real" where
  "compute_volatility t =
     (let hr = hand_results t in
      if length hr > 1 then
        (case py_div (real_of_int (sum_list hr)) (real (length hr)) of
           Inl e \<Rightarrow> Inl e
         | Inr mean \<Rightarrow>
            (case py_div (sum_list (map (\<lambda>x. (real_of_int x - mean) ^ 2) hr)) (real (length hr)) of
               Inl e \<Rightarrow> Inl e
             | Inr variance \<Rightarrow> py_sqrt variance))
      else Inr (volatility t))"

definition compute_sharpe :: "PlayerTrajectory \<Rightarrow> py_error + real" where
  \<comment> \<open>Called on the trajectory whose \<^verbatim>\<open>total_profit\<close> and \<^verbatim>\<open>volatility\<close> are already set.\<close>
  "compute_sharpe t =
     (if volatility t > 0 \<and> length (hand_results t) > 0 then
        (case py_div (real_of_int (total_profit t)) (real (length (hand_results t))) of
           Inl e \<Rightarrow> Inl e
         | Inr avg_profit \<Rightarrow> py_div avg_profit (volatility t))
      else Inr (sharpe_ratio t))"

definition compute_drawdown_pct :: "int \<Rightarrow> int \<Rightarrow> py_error + real" where
  "compute_drawdown_pct max_dd peak =
     (if peak > 0 then
        (case py_div (real_of_int max_dd) (real_of_int peak) of
           Inl e \<Rightarrow> Inl e
         | Inr q \<Rightarrow> Inr (q * 100))
      else Inr 0)"

definition compute_metrics :: "PlayerTrajectory \<Rightarrow> py_error + PlayerTrajectory" where
  "compute_metrics t =
     (if stack_history t = [] then Inr t
      else
        (let sh = stack_history t;
             t1 = t\<lparr> final_stack := last sh,
                     total_profit := last sh - initial_stack t,
                     peak_stack := py_max_list sh,
                     min_stack := py_min_list sh \<rparr>;
             (peak, max_dd) = drawdown_scan (initial_stack t) 0 sh
         in case compute_drawdown_pct max_dd peak of
              Inl e \<Rightarrow> Inl e
            | Inr pct \<Rightarrow>
               (let t2 = t1\<lparr> max_drawdown := max_dd, max_drawdown_pct := pct \<rparr>
                in case compute_volatility t2 of
                     Inl e \<Rightarrow> Inl e
                   | Inr vol \<Rightarrow>
                      (let t3 = t2\<lparr> volatility := vol \<rparr>
                       in case compute_sharpe t3 of
                            Inl e \<Rightarrow> Inl e
                          | Inr sr \<Rightarrow>
                             (let s0 = \<lparr> s_hands_won = hands_won t3, s_hands_lost = hands_lost t3,
                                         current_streak = 0, is_winning = None,
                                         max_win = 0, max_lose = 0 \<rparr>;
                                  s = fold (\<lambda>r st. streak_step st r) (hand_results t3) s0
                              in Inr (t3\<lparr> sharpe_ratio := sr,
                                          hands_won := s_hands_won s,
                                          hands_lost := s_hands_lost s,
                                          longest_win_streak := max_win s,
                                          longest_lose_streak := max_lose s \<rparr>))))))"

text \<open>The specification's wording of volatility: the population standard deviation
  of a series (square root of the mean squared deviation from the mean).\<close>

definition population_stddev :: "int list \<Rightarrow> real" where
  "population_stddev xs =
     (let n = real (length xs); m = real_of_int (sum_list xs) / n
      in sqrt (sum_list (map (\<lambda>x. (real_of_int x - m) ^ 2) xs) / n))"

definition example_trajectory :: PlayerTrajectory where
  "example_trajectory =
     new_trajectory ''TAG_1'' ''TAG'' 1000 [1000, 1200, 900, 1500, 1400]
       [0, 200, -100, 500, 400] [200, -300, 600, -100]"

section \<open>OmahaTestRunner.py: card utilities and hand scoring\<close>

text \<open>A hole card is an object of the \<^verbatim>\<open>clubs\<close> library; the scorer only reads
  \<^verbatim>\<open>str(card.rank)\<close> and \<^verbatim>\<open>str(card.suit)\<close>. \<open>NotACard\<close> stands for any list
  element on which these attribute reads raise. The four suit symbols of \<^verbatim>\<open>clubs\<close>
  are non-ASCII code points, written here as their UTF-8 bytes.\<close>

datatype pycard = Card (rank_str: string) (suit_str: string) | NotACard

definition RANK_VALUES :: "string \<rightharpoonup> int" where
  "RANK_VALUES = map_of
     [(''2'', 2), (''3'', 3), (''4'', 4), (''5'', 5), (''6'', 6), (''7'', 7), (''8'', 8),
      (''9'', 9), (''T'', 10), (''J'', 11), (''Q'', 12), (''K'', 13), (''A'', 14), (''10'', 10)]"

definition sym_club :: string where "sym_club = [CHR 0xE2, CHR 0x99, CHR 0xA3]"
definition sym_diamond :: string where "sym_diamond = [CHR 0xE2, CHR 0x99, CHR 0xA6]"
definition sym_heart :: string where "sym_heart = [CHR 0xE2, CHR 0x99, CHR 0xA5]"
definition sym_spade :: string where "sym_spade = [CHR 0xE2, CHR 0x99, CHR 0xA0]"

definition SUIT_CONVERT :: "string \<rightharpoonup> string" where
  "SUIT_CONVERT = map_of
     [(sym_club, ''c''), (sym_diamond, ''d''), (sym_heart, ''h''), (sym_spade, ''s''),
      (''c'', ''c''), (''d'', ''d''), (''h'', ''h''), (''s'', ''s'')]"

datatype card_error = AttributeError

fun card_rank_num :: "pycard \<Rightarrow> card_error + int" where
  "card_rank_num NotACard = Inl AttributeError"
| "card_rank_num (Card r s) = Inr (case RANK_VALUES r of None \<Rightarrow> 7 | Some v \<Rightarrow> v)"

fun card_suit_char :: "pycard \<Rightarrow> card_error + string" where
  "card_suit_char NotACard = Inl AttributeError"
| "card_suit_char (Card r s) = Inr (case SUIT_CONVERT s of None \<Rightarrow> ''c'' | Some v \<Rightarrow> v)"

text \<open>The first loop of \<^verbatim>\<open>score_omaha_hand\<close>: it fills \<^verbatim>\<open>ranks\<close> and \<^verbatim>\<open>suits\<close>,
  and any exception makes the scorer return 25 (here: the loop returns \<open>None\<close>).\<close>

fun read_cards :: "pycard list \<Rightarrow> int list \<Rightarrow> string list \<Rightarrow> (int list \<times> string list) option" where
  "read_cards [] ranks suits = Some (ranks, suits)"
| "read_cards (c # cs) ranks suits =
     (case card_rank_num c of
        Inl e \<Rightarrow> None
      | Inr r \<Rightarrow>
         (case card_suit_char c of
            Inl e \<Rightarrow> None
          | Inr s \<Rightarrow> read_cards cs (ranks @ [r]) (suits @ [s])))"

definition high_card_value :: "int list \<Rightarrow> real" where
  \<comment> \<open>\<^verbatim>\<open>avg_rank = sum(ranks) / n; score += (avg_rank / 14) * 25\<close>\<close>
  "high_card_value ranks =
     (real_of_int (sum_list ranks) / real (length ranks)) / 14 * 25"

definition pairs_of :: "int list \<Rightarrow> int list" where
  \<comment> \<open>\<^verbatim>\<open>pairs = [r for r, c in rc.items() if c >= 2]\<close>: the distinct ranks that occur
      at least twice.\<close>
  "pairs_of ranks = filter (\<lambda>r. count_list ranks r \<ge> 2) (remdups ranks)"

definition pairs_value :: "int list \<Rightarrow> real" where
  "pairs_value ranks =
     (if pairs_of ranks \<noteq> [] then 10 + (real_of_int (py_max_list (pairs_of ranks)) / 14) * 10
      else 0)"

definition suit_counts :: "string list \<Rightarrow> nat list" where
  \<comment> \<open>\<^verbatim>\<open>sc.values()\<close>: how many cards each suit that occurs has.\<close>
  "suit_counts suits = map (count_list suits) (remdups suits)"

definition suitedness_value :: "string list \<Rightarrow> real" where
  "suitedness_value suits =
     (let suited_groups = length (filter (\<lambda>c. c \<ge> 2) (suit_counts suits));
          mx = fold max (tl (suit_counts suits)) (hd (suit_counts suits))
      in if suited_groups \<ge> 2 then 15
         else if mx \<ge> 3 then 12
         else if mx \<ge> 2 then 8
         else 0)"

definition connectivity_value :: "int list \<Rightarrow> real" where
  "connectivity_value ranks =
     (let uniq = sort (remdups ranks) in
      if length uniq \<ge> 2 then
        (let gaps = map (\<lambda>i. uniq ! (i + 1) - uniq ! i) [0 ..< length uniq - 1];
             avg_gap = real_of_int (sum_list gaps) / real (length gaps)
         in max 0 (20 - (avg_gap - 1) * 5))
      else 0)"

definition suited_ace :: "int list \<Rightarrow> string list \<Rightarrow> bool" where
  \<comment> \<open>The double loop over \<^verbatim>\<open>enumerate(ranks)\<close>.\<close>
  "suited_ace ranks suits =
     list_ex (\<lambda>i. ranks ! i = 14 \<and> list_ex (\<lambda>j. j \<noteq> i \<and> suits ! i = suits ! j) [0 ..< length ranks])
       [0 ..< length ranks]"

definition nut_value :: "int list \<Rightarrow> string list \<Rightarrow> real" where
  "nut_value ranks suits =
     (if suited_ace ranks suits then 15 else if 14 \<in> set ranks then 8 else 0)
     + (if length (filter (\<lambda>r. r \<ge> 10) ranks) \<ge> 3 then 5 else 0)"

definition score_omaha_hand :: "pycard list \<Rightarrow> real" where
  "score_omaha_hand hole_cards =
     (if hole_cards = [] then 25
      else case read_cards hole_cards [] [] of
             None \<Rightarrow> 25
           | Some (ranks, suits) \<Rightarrow>
              (let score = 0 + high_card_value ranks + pairs_value ranks + suitedness_value suits
                             + connectivity_value ranks + nut_value ranks suits
               in min 100 (max 0 score)))"

text \<open>What the scorer reads off a well-formed card: its numeric rank and its
  converted suit character.\<close>

definition rank_of :: "pycard \<Rightarrow> int" where
  "rank_of c = (case RANK_VALUES (rank_str c) of None \<Rightarrow> 7 | Some v \<Rightarrow> v)"

definition suit_of :: "pycard \<Rightarrow> string" where
  "suit_of c = (case SUIT_CONVERT (suit_str c) of None \<Rightarrow> ''c'' | Some v \<Rightarrow> v)"

section \<open>StyleBasedTestRunner.py: statistical planner\<close>

definition calculate_sample_size_needed :: "real \<Rightarrow> real \<Rightarrow> real \<Rightarrow> real \<Rightarrow> py_error + int" where
  "calculate_sample_size_needed expected_effect_bb100 std_dev_bb100 confidence pwr =
     (let z_alpha = (if confidence = 0.95 then 1.96 else (if confidence = 0.99 then 2.58 else 1.645));
          z_beta = (if pwr = 0.80 then 0.84 else (if pwr = 0.90 then 1.28 else 0.52))
      in case py_div ((z_alpha + z_beta) * std_dev_bb100) expected_effect_bb100 of
           Inl e \<Rightarrow> Inl e
         | Inr q \<Rightarrow> Inr \<lceil>2 * q ^ 2\<rceil>)"

section \<open>OmahaTestRunner.py: style tables and the player\<close>

text \<open>A style profile is the dictionary \<^verbatim>\<open>STYLES[style]\<close>. The keys the player reads
  with \<^verbatim>\<open>.get(key, default)\<close> are optional fields here.\<close>

record StyleDef =
  sd_name :: string
  vpip_target :: real
  pfr_ratio :: real
  aggression :: real
  cbet :: real
  fold_cbet :: real
  raise_sizing :: "real option"
  postflop_agg :: "real option"
  barrel_turn :: real
  barrel_river :: real
  sd_threshold :: "real option"

definition mk_style ::
  "string \<Rightarrow> real \<Rightarrow> real \<Rightarrow> real \<Rightarrow> real \<Rightarrow> real \<Rightarrow> real \<Rightarrow> real \<Rightarrow> real \<Rightarrow> real \<Rightarrow> StyleDef" where
  "mk_style n vt pr ag cb fc rs pa bt br =
     \<lparr> sd_name = n, vpip_target = vt, pfr_ratio = pr, aggression = ag, cbet = cb,
       fold_cbet = fc, raise_sizing = Some rs, postflop_agg = Some pa,
       barrel_turn = bt, barrel_river = br, sd_threshold = None \<rparr>"

text \<open>The hardcoded tables, used when the shared JSON file is unavailable.\<close>

definition STYLES :: "string \<rightharpoonup> StyleDef" where
  "STYLES = map_of
     [(''nit'',  mk_style ''Nit (Ultra-Tight)''      0.20 0.70 0.45 0.50 0.55 0.5  0.35 0.40 0.30),
      (''rock'', mk_style ''Rock (Tight-Passive)''   0.20 0.45 0.25 0.45 0.55 0.5  0.15 0.35 0.25),
      (''reg'',  mk_style ''Reg (Solid Regular)''    0.25 0.75 0.60 0.58 0.42 0.75 0.30 0.50 0.40),
      (''tag'',  mk_style ''TAG (Tight-Aggressive)'' 0.28 0.72 0.65 0.62 0.38 0.75 0.35 0.55 0.42),
      (''lag'',  mk_style ''LAG (Loose-Aggressive)'' 0.35 0.65 0.75 0.65 0.30 1.0  0.40 0.60 0.50),
      (''fish'', mk_style ''Fish (Loose-Passive)''   0.50 0.25 0.20 0.40 0.25 0.5  0.10 0.30 0.20)]"

definition STYLE_THRESHOLDS :: "string \<rightharpoonup> (int \<rightharpoonup> real)" where
  "STYLE_THRESHOLDS = map_of
     [(''nit'',  map_of [(4, 55.0), (5, 65.5), (6, 73.0)]),
      (''rock'', map_of [(4, 55.0), (5, 65.5), (6, 73.0)]),
      (''reg'',  map_of [(4, 53.6), (5, 63.9), (6, 71.3)]),
      (''tag'',  map_of [(4, 52.0), (5, 62.0), (6, 69.5)]),
      (''lag'',  map_of [(4, 50.5), (5, 61.0), (6, 68.5)]),
      (''fish'', map_of [(4, 46.5), (5, 56.7), (6, 64.3)])]"

definition POS_ADJ :: "string \<rightharpoonup> real" where
  "POS_ADJ = map_of
     [(''BTN'', 12), (''CO'', 6), (''HJ'', 2), (''MP'', -3), (''EP'', -8), (''UTG'', -12),
      (''SB'', -5), (''BB'', 0)]"

definition STREET_NAMES :: "int \<rightharpoonup> string" where
  "STREET_NAMES = map_of [(0, ''preflop''), (1, ''flop''), (2, ''turn''), (3, ''river'')]"

record OmahaPlayer =
  idx :: int
  style :: string
  sd :: StyleDef
  variant :: int
  fast_mode :: bool
  threshold :: real
  hands :: int
  wins :: int
  profit :: int
  advisor_calls :: int
  api_errors :: int
  actions :: "string \<Rightarrow> int"
  streets :: "string \<Rightarrow> int"
  per_hand :: "int list"
  vpip_hands :: int
  vpip_this_hand :: bool

definition reset_stats :: "OmahaPlayer \<Rightarrow> OmahaPlayer" where
  "reset_stats p =
     p\<lparr> hands := 0, wins := 0, profit := 0, advisor_calls := 0, api_errors := 0,
        actions := (\<lambda>k. 0), streets := (\<lambda>k. 0), per_hand := [],
        vpip_hands := 0, vpip_this_hand := False \<rparr>"

definition new_player :: "int \<Rightarrow> string \<Rightarrow> int \<Rightarrow> bool \<Rightarrow> OmahaPlayer option" where
  \<comment> \<open>\<^verbatim>\<open>OmahaPlayer(idx, style, variant, fast_mode=...)\<close> over the hardcoded tables;
      an unknown style raises \<^verbatim>\<open>KeyError\<close> (here \<open>None\<close>).\<close>
  "new_player i st v fm =
     (case STYLES st of
        None \<Rightarrow> None
      | Some d \<Rightarrow>
         (let dflt = (case sd_threshold d of None \<Rightarrow> 50 | Some t \<Rightarrow> t);
              th = (case STYLE_THRESHOLDS st of
                      None \<Rightarrow> dflt
                    | Some m \<Rightarrow> (case m v of None \<Rightarrow> dflt | Some t \<Rightarrow> t))
          in Some (reset_stats
               \<lparr> idx = i, style = st, sd = d, variant = v, fast_mode = fm, threshold = th,
                 hands = 0, wins = 0, profit = 0, advisor_calls = 0, api_errors = 0,
                 actions = (\<lambda>k. 0), streets = (\<lambda>k. 0), per_hand = [],
                 vpip_hands = 0, vpip_this_hand = False \<rparr>)))"

datatype omaha_error = ZeroDivision | IndexError | CardError | Malformed

definition position :: "OmahaPlayer \<Rightarrow> int \<Rightarrow> int \<Rightarrow> omaha_error + string" where
  "position p num_p hand_num =
     (let pos = (if num_p \<le> 3 then [''BTN'', ''SB'', ''BB'']
                 else if num_p \<le> 6 then [''UTG'', ''MP'', ''CO'', ''BTN'', ''SB'', ''BB'']
                 else [''UTG'', ''UTG'', ''EP'', ''MP'', ''HJ'', ''CO'', ''BTN'', ''SB'', ''BB''])
      in if num_p = 0 then Inl ZeroDivision
         else (let rotated_idx = (idx p - hand_num) mod num_p
               in Inr (pos ! nat (rotated_idx mod int (length pos)))))"

definition new_hand :: "OmahaPlayer \<Rightarrow> OmahaPlayer" where
  "new_hand p = p\<lparr> vpip_this_hand := False \<rparr>"

text \<open>A decision is the integer the player returns together with the key of
  \<^verbatim>\<open>self.actions\<close> it counted for that return.\<close>

datatype act = Fold | Call | Raise

fun act_key :: "act \<Rightarrow> string" where
  "act_key Fold = ''fold''"
| "act_key Call = ''call''"
| "act_key Raise = ''raise''"

definition count_action :: "act \<Rightarrow> OmahaPlayer \<Rightarrow> OmahaPlayer" where
  \<comment> \<open>\<^verbatim>\<open>self.actions[key] += 1\<close>\<close>
  "count_action a p = p\<lparr> actions := (actions p)(act_key a := actions p (act_key a) + 1) \<rparr>"

text \<open>The two external sources a decision reads: the global random generator and the
  advisor service. Both are given as sequences; the \<open>world\<close> counts how many
  random draws and how many advisor calls have been made so far.\<close>

text \<open>The \<^verbatim>\<open>sizing\<close> field of a recommendation, by how the reading code fares on it:
  a dictionary without \<^verbatim>\<open>optimal\<close>; a dictionary whose \<^verbatim>\<open>optimal\<close> converts with
  \<^verbatim>\<open>int(.)\<close> to the given number; a falsy value that is not a dictionary (such as
  \<^verbatim>\<open>None\<close>); a truthy value that is not a dictionary; a dictionary whose \<^verbatim>\<open>optimal\<close>
  does not convert.\<close>

datatype sizing_field = NoOptimal | Optimal int | FalsyNotDict | NotADict | OptimalNotInt

datatype action_field = ActionStr string | ActionBad

datatype oracle_reply = Failed | Reply action_field sizing_field

record advisor_query =
  q_gameVariant :: int
  q_street :: string
  q_holeCards :: "string list"
  q_board :: "string list"
  q_position :: string
  q_playersInHand :: int
  q_potSize :: int
  q_toCall :: int
  q_stackSize :: int
  q_style :: string

record env =
  random :: "nat \<Rightarrow> real"
  advisor :: "nat \<Rightarrow> advisor_query \<Rightarrow> oracle_reply"

record world =
  draws_used :: nat
  calls_made :: nat

definition draw :: "env \<Rightarrow> world \<Rightarrow> real \<times> world" where
  \<comment> \<open>\<^verbatim>\<open>random.random()\<close>\<close>
  "draw e w = (random e (draws_used w), w\<lparr> draws_used := Suc (draws_used w) \<rparr>)"

definition note_vpip :: "OmahaPlayer \<Rightarrow> OmahaPlayer" where
  \<comment> \<open>\<^verbatim>\<open>if not self._vpip_this_hand: self.vpip_hands += 1; self._vpip_this_hand = True\<close>\<close>
  "note_vpip p =
     (if \<not> vpip_this_hand p then p\<lparr> vpip_hands := vpip_hands p + 1, vpip_this_hand := True \<rparr>
      else p)"

definition preflop ::
  "env \<Rightarrow> OmahaPlayer \<Rightarrow> world \<Rightarrow> pycard list \<Rightarrow> int \<Rightarrow> int \<Rightarrow> int \<Rightarrow> int \<Rightarrow> int \<Rightarrow> int \<Rightarrow> int
     \<Rightarrow> (omaha_error + act \<times> int) \<times> OmahaPlayer \<times> world" where
  "preflop e p w hole call pot stk mnr mxr num_p hand_num =
     (let score = score_omaha_hand hole in
      case position p num_p hand_num of
        Inl err \<Rightarrow> (Inl err, p, w)
      | Inr pos \<Rightarrow>
         (let adj = score + (case POS_ADJ pos of None \<Rightarrow> 0 | Some a \<Rightarrow> a);
              thresh = threshold p;
              pfr = pfr_ratio (sd p);
              sizing = (case raise_sizing (sd p) of None \<Rightarrow> 0.75 | Some s \<Rightarrow> s)
          in if adj \<ge> thresh then
               (let p1 = note_vpip p; (u, w1) = draw e w
                in if u < pfr \<and> mnr \<le> mxr then
                     (let amt = max mnr (min mxr (py_trunc (real_of_int pot * sizing)))
                      in (Inr (Raise, amt), count_action Raise p1, w1))
                   else (Inr (Call, call), count_action Call p1, w1))
             else if call = 0 then (Inr (Call, 0), count_action Call p, w)
             else
               (let margin = (if style p \<in> {''lag'', ''fish''} then 5
                              else if style p \<in> {''tag'', ''reg''} then 3 else (0::real));
                    max_call_pct = (case map_of [(''fish'', 0.08), (''lag'', 0.05), (''tag'', 0.03),
                                                 (''reg'', 0.03)] (style p) of
                                      None \<Rightarrow> 0.03 | Some c \<Rightarrow> (c::real))
                in if margin > 0 \<and> adj \<ge> thresh - margin
                      \<and> real_of_int call \<le> real_of_int stk * max_call_pct then
                     (Inr (Call, call), count_action Call (note_vpip p), w)
                   else (Inr (Fold, -1), count_action Fold p, w))))"

definition heuristic ::
  "env \<Rightarrow> OmahaPlayer \<Rightarrow> world \<Rightarrow> int \<Rightarrow> int \<Rightarrow> int \<Rightarrow> int \<Rightarrow> int
     \<Rightarrow> (act \<times> int) \<times> OmahaPlayer \<times> world" where
  "heuristic e p w call pot stk mnr mxr =
     (let cbet' = cbet (sd p);
          fold_cbet' = fold_cbet (sd p);
          postflop_agg' = (case postflop_agg (sd p) of
                             None \<Rightarrow> aggression (sd p) * 0.4 | Some a \<Rightarrow> a)
      in if call = 0 then
           (let (u, w1) = draw e w
            in if u < cbet' \<and> mnr \<le> mxr then
                 (let sizing = 0.5 + (case raise_sizing (sd p) of None \<Rightarrow> 0.75 | Some s \<Rightarrow> s) * 0.25
                  in ((Raise, max mnr (min (py_trunc (real_of_int pot * sizing)) mxr)),
                      count_action Raise p, w1))
               else ((Call, 0), count_action Call p, w1))
         else
           (let (u1, w1) = draw e w
            in if u1 < fold_cbet' then ((Fold, -1), count_action Fold p, w1)
               else
                 (let (u2, w2) = draw e w1
                  in if u2 < postflop_agg' \<and> mnr \<le> mxr then
                       ((Raise, max mnr (min (py_trunc (real_of_int pot * 0.75)) mxr)),
                        count_action Raise p, w2)
                     else ((Call, call), count_action Call p, w2))))"

fun card_str :: "pycard \<Rightarrow> omaha_error + string" where
  "card_str NotACard = Inl CardError"
| "card_str (Card r s) =
     Inr ((if r = ''T'' then ''10'' else r) @ (case SUIT_CONVERT s of None \<Rightarrow> ''c'' | Some v \<Rightarrow> v))"

fun card_strs :: "pycard list \<Rightarrow> omaha_error + string list" where
  \<comment> \<open>\<^verbatim>\<open>[card_str(c) for c in cards]\<close>\<close>
  "card_strs [] = Inr []"
| "card_strs (c # cs) =
     (case card_str c of
        Inl err \<Rightarrow> Inl err
      | Inr s \<Rightarrow> (case card_strs cs of Inl err \<Rightarrow> Inl err | Inr ss \<Rightarrow> Inr (s # ss)))"

definition py_slice_to :: "'a list \<Rightarrow> int \<Rightarrow> 'a list" where
  \<comment> \<open>\<^verbatim>\<open>xs[:v]\<close>\<close>
  "py_slice_to xs v = (if 0 \<le> v then take (nat v) xs else take (length xs - nat (- v)) xs)"

definition build_query ::
  "OmahaPlayer \<Rightarrow> pycard list \<Rightarrow> pycard list \<Rightarrow> int \<Rightarrow> int \<Rightarrow> int \<Rightarrow> string \<Rightarrow> int \<Rightarrow> int
     \<Rightarrow> omaha_error + advisor_query" where
  \<comment> \<open>The dictionary \<^verbatim>\<open>gs\<close>; \<^verbatim>\<open>gameVariant\<close> is kept as the variant number.\<close>
  "build_query p hole board call pot stk street num_p hand_num =
     (case card_strs (py_slice_to hole (variant p)) of
        Inl err \<Rightarrow> Inl err
      | Inr hs \<Rightarrow>
         (case card_strs board of
            Inl err \<Rightarrow> Inl err
          | Inr bs \<Rightarrow>
             (case position p num_p hand_num of
                Inl err \<Rightarrow> Inl err
              | Inr pos \<Rightarrow>
                 Inr \<lparr> q_gameVariant = variant p, q_street = street, q_holeCards = hs,
                       q_board = bs, q_position = pos, q_playersInHand = num_p,
                       q_potSize = pot, q_toCall = call, q_stackSize = stk,
                       q_style = style p \<rparr>)))"

definition raise_to_optimal ::
  "OmahaPlayer \<Rightarrow> world \<Rightarrow> sizing_field \<Rightarrow> int \<Rightarrow> int
     \<Rightarrow> (omaha_error + act \<times> int) \<times> OmahaPlayer \<times> world" where
  \<comment> \<open>\<^verbatim>\<open>opt = sizing.get("optimal", mnr) if sizing else mnr; self.actions['raise'] += 1;
      return max(mnr, min(int(opt), mxr))\<close>\<close>
  "raise_to_optimal p w sizing mnr mxr =
     (case sizing of
        NotADict \<Rightarrow> (Inl Malformed, p, w)
      | OptimalNotInt \<Rightarrow> (Inl Malformed, count_action Raise p, w)
      | NoOptimal \<Rightarrow> (Inr (Raise, max mnr (min mnr mxr)), count_action Raise p, w)
      | FalsyNotDict \<Rightarrow> (Inr (Raise, max mnr (min mnr mxr)), count_action Raise p, w)
      | Optimal n \<Rightarrow> (Inr (Raise, max mnr (min n mxr)), count_action Raise p, w))"

definition style_action ::
  "env \<Rightarrow> OmahaPlayer \<Rightarrow> world \<Rightarrow> string \<Rightarrow> sizing_field \<Rightarrow> int \<Rightarrow> int \<Rightarrow> int \<Rightarrow> int \<Rightarrow> int
     \<Rightarrow> (omaha_error + act \<times> int) \<times> OmahaPlayer \<times> world" where
  "style_action e p w action sizing call pot stk mnr mxr =
     (let agg = aggression (sd p) in
      if action = ''fold'' then
        (if style p = ''lag'' \<and> real_of_int call \<le> real_of_int pot * 0.3 then
           (let (u, w1) = draw e w
            in if u < 0.3 then (Inr (Call, call), count_action Call p, w1)
               else (Inr (Fold, -1), count_action Fold p, w1))
         else (Inr (Fold, -1), count_action Fold p, w))
      else if action \<in> {''call'', ''check''} then
        (let (u, w1) = draw e w
         in if u < agg * 0.3 \<and> mnr \<le> mxr then raise_to_optimal p w1 sizing mnr mxr
            else (Inr (Call, call), count_action Call p, w1))
      else if action \<in> {''raise'', ''bet''} then
        (if style p = ''rock'' then
           (let (u, w1) = draw e w
            in if u > agg then (Inr (Call, call), count_action Call p, w1)
               else if mnr \<le> mxr then raise_to_optimal p w1 sizing mnr mxr
               else (Inr (Call, call), count_action Call p, w1))
         else if mnr \<le> mxr then raise_to_optimal p w sizing mnr mxr
         else (Inr (Call, call), count_action Call p, w))
      else (Inr (Call, call), count_action Call p, w))"

definition note_api_error :: "OmahaPlayer \<Rightarrow> OmahaPlayer" where
  \<comment> \<open>The \<^verbatim>\<open>except:\<close> branch of \<^verbatim>\<open>_postflop\<close>.\<close>
  "note_api_error p = p\<lparr> api_errors := api_errors p + 1 \<rparr>"

definition postflop ::
  "env \<Rightarrow> OmahaPlayer \<Rightarrow> world \<Rightarrow> pycard list \<Rightarrow> pycard list \<Rightarrow> int \<Rightarrow> int \<Rightarrow> int \<Rightarrow> int \<Rightarrow> int
     \<Rightarrow> string \<Rightarrow> int \<Rightarrow> int \<Rightarrow> (act \<times> int) \<times> OmahaPlayer \<times> world" where
  "postflop e p w hole board call pot stk mnr mxr street num_p hand_num =
     (if fast_mode p then heuristic e p w call pot stk mnr mxr
      else if length board \<ge> 3 then
        (case build_query p hole board call pot stk street num_p hand_num of
           Inl err \<Rightarrow> heuristic e (note_api_error p) w call pot stk mnr mxr
         | Inr gs \<Rightarrow>
            (let w1 = w\<lparr> calls_made := Suc (calls_made w) \<rparr> in
             case advisor e (calls_made w) gs of
               Failed \<Rightarrow> heuristic e (note_api_error p) w1 call pot stk mnr mxr
             | Reply af sizing \<Rightarrow>
                (let p1 = p\<lparr> advisor_calls := advisor_calls p + 1 \<rparr> in
                 case af of
                   ActionBad \<Rightarrow> heuristic e (note_api_error p1) w1 call pot stk mnr mxr
                 | ActionStr action \<Rightarrow>
                    (case style_action e p1 w1 action sizing call pot stk mnr mxr of
                       (Inl err, p2, w2) \<Rightarrow> heuristic e (note_api_error p2) w2 call pot stk mnr mxr
                     | (Inr d, p2, w2) \<Rightarrow> (d, p2, w2)))))
      else heuristic e p w call pot stk mnr mxr)"

record observation =
  o_call :: int
  o_pot :: int
  o_stacks :: "int list option"
  o_min_raise :: int
  o_max_raise :: int
  o_hole_cards :: "pycard list"
  o_community_cards :: "pycard list"

definition py_index :: "'a list \<Rightarrow> int \<Rightarrow> omaha_error + 'a" where
  \<comment> \<open>\<^verbatim>\<open>xs[i]\<close>: positions \<open>0 .. len - 1\<close> from the front, \<open>-len .. -1\<close> from the
      back, anything else raises.\<close>
  "py_index xs i =
     (if 0 \<le> i \<and> i < int (length xs) then Inr (xs ! nat i)
      else if i < 0 \<and> - int (length xs) \<le> i then Inr (xs ! nat (int (length xs) + i))
      else Inl IndexError)"

definition decide ::
  "env \<Rightarrow> OmahaPlayer \<Rightarrow> world \<Rightarrow> observation \<Rightarrow> int \<Rightarrow> int \<Rightarrow> int
     \<Rightarrow> (omaha_error + act \<times> int) \<times> OmahaPlayer \<times> world" where
  "decide e p w obs street_idx num_p hand_num =
     (let street = (case STREET_NAMES street_idx of None \<Rightarrow> ''preflop'' | Some s \<Rightarrow> s);
          p0 = p\<lparr> streets := (streets p)(street := streets p street + 1) \<rparr>
      in case (case o_stacks obs of None \<Rightarrow> Inr 200 | Some l \<Rightarrow> py_index l (idx p)) of
           Inl err \<Rightarrow> (Inl err, p0, w)
         | Inr stk \<Rightarrow>
            (if street_idx = 0 then
               preflop e p0 w (o_hole_cards obs) (o_call obs) (o_pot obs) stk
                 (o_min_raise obs) (o_max_raise obs) num_p hand_num
             else
               (case postflop e p0 w (o_hole_cards obs) (o_community_cards obs) (o_call obs)
                       (o_pot obs) stk (o_min_raise obs) (o_max_raise obs) street num_p hand_num of
                  (d, p1, w1) \<Rightarrow> (Inr d, p1, w1))))"

text \<open>One hand as this player sees it in \<^verbatim>\<open>play_hand\<close>: \<^verbatim>\<open>new_hand\<close>, then one call of
  \<^verbatim>\<open>decide\<close> for each decision point the dealer presents (an observation and the
  street index). An exception leaves \<^verbatim>\<open>play_hand\<close>; the decisions made so far are
  kept in the result.\<close>

fun play_points ::
  "env \<Rightarrow> int \<Rightarrow> int \<Rightarrow> OmahaPlayer \<Rightarrow> world \<Rightarrow> (observation \<times> int) list
     \<Rightarrow> (act \<times> int) list \<times> omaha_error option \<times> OmahaPlayer \<times> world" where
  "play_points e num_p hand_num p w [] = ([], None, p, w)"
| "play_points e num_p hand_num p w ((obs, street_idx) # pts) =
     (case decide e p w obs street_idx num_p hand_num of
        (Inl err, p1, w1) \<Rightarrow> ([], Some err, p1, w1)
      | (Inr d, p1, w1) \<Rightarrow>
         (case play_points e num_p hand_num p1 w1 pts of
            (ds, err, p2, w2) \<Rightarrow> (d # ds, err, p2, w2)))"

definition play_hand_of ::
  "env \<Rightarrow> int \<Rightarrow> int \<Rightarrow> OmahaPlayer \<Rightarrow> world \<Rightarrow> (observation \<times> int) list
     \<Rightarrow> (act \<times> int) list \<times> omaha_error option \<times> OmahaPlayer \<times> world" where
  "play_hand_of e num_p hand_num p w pts = play_points e num_p hand_num (new_hand p) w pts"

text \<open>The bookkeeping of \<^verbatim>\<open>run_omaha_test\<close> for one player after a hand that
  \<^verbatim>\<open>play_hand\<close> completed with profit \<open>pr\<close> for this player.\<close>

definition record_result :: "OmahaPlayer \<Rightarrow> int \<Rightarrow> OmahaPlayer" where
  "record_result p pr =
     p\<lparr> hands := hands p + 1, profit := profit p + pr, per_hand := per_hand p @ [pr],
        wins := (if pr > 0 then wins p + 1 else wins p) \<rparr>"

text \<open>One iteration of the loop of \<^verbatim>\<open>run_omaha_test\<close>, seen from one player: the
  decision points of the hand, and the player's profit if the hand completed
  (\<open>None\<close> when the dealer raised). A hand that raises is skipped.\<close>

type_synonym omaha_hand = "int \<times> int \<times> (observation \<times> int) list \<times> int option"

fun run_hands :: "env \<Rightarrow> OmahaPlayer \<Rightarrow> world \<Rightarrow> omaha_hand list \<Rightarrow> OmahaPlayer \<times> world" where
  "run_hands e p w [] = (p, w)"
| "run_hands e p w ((num_p, hand_num, pts, outcome) # rest) =
     (case play_hand_of e num_p hand_num p w pts of
        (ds, err, p1, w1) \<Rightarrow>
          (case (err, outcome) of
             (None, Some pr) \<Rightarrow> run_hands e (record_result p1 pr) w1 rest
           | _ \<Rightarrow> run_hands e p1 w1 rest))"

text \<open>The per-style aggregate of \<^verbatim>\<open>run_omaha_test\<close>.\<close>

record StyleAgg =
  a_hands :: int
  a_wins :: int
  a_profit :: int
  a_actions :: "string \<Rightarrow> int"
  a_per_hand :: "int list"
  a_streets :: "string \<Rightarrow> int"
  a_advisor_calls :: int
  a_api_errors :: int
  a_vpip_hands :: int

definition empty_agg :: StyleAgg where
  "empty_agg =
     \<lparr> a_hands = 0, a_wins = 0, a_profit = 0, a_actions = (\<lambda>k. 0), a_per_hand = [],
       a_streets = (\<lambda>k. 0), a_advisor_calls = 0, a_api_errors = 0, a_vpip_hands = 0 \<rparr>"

definition add_player :: "StyleAgg \<Rightarrow> OmahaPlayer \<Rightarrow> StyleAgg" where
  "add_player a p =
     \<lparr> a_hands = a_hands a + hands p, a_wins = a_wins a + wins p,
       a_profit = a_profit a + profit p,
       a_actions = (\<lambda>k. a_actions a k + actions p k),
       a_per_hand = a_per_hand a @ per_hand p,
       a_streets = (\<lambda>k. a_streets a k + streets p k),
       a_advisor_calls = a_advisor_calls a + advisor_calls p,
       a_api_errors = a_api_errors a + api_errors p,
       a_vpip_hands = a_vpip_hands a + vpip_hands p \<rparr>"

definition aggregate :: "string \<Rightarrow> OmahaPlayer list \<Rightarrow> StyleAgg" where
  \<comment> \<open>\<^verbatim>\<open>agg[style]\<close> after the loop over the players\<close>
  "aggregate st players = fold (\<lambda>p a. add_player a p) (filter (\<lambda>p. style p = st) players) empty_agg"

text \<open>The interval \<^verbatim>\<open>ci\<close> of \<^verbatim>\<open>run_omaha_test\<close> for one style, before the rounding to
  one decimal; \<open>None\<close> when the style has no hands (\<^verbatim>\<open>continue\<close>).\<close>

definition omaha_ci :: "StyleAgg \<Rightarrow> (py_error + real \<times> real) option" where
  "omaha_ci a =
     (let n = a_hands a in
      if n = 0 then None
      else Some
        (case py_div (real_of_int n) 100 of
           Inl err \<Rightarrow> Inl err
         | Inr n100 \<Rightarrow>
            (case py_div (real_of_int (a_profit a) / 2) n100 of
               Inl err \<Rightarrow> Inl err
             | Inr bb100 \<Rightarrow>
                (let profs = a_per_hand a in
                 if length profs > 1 then
                   (case py_div (real_of_int (sum_list profs)) (real (length profs)) of
                      Inl err \<Rightarrow> Inl err
                    | Inr m \<Rightarrow>
                       (case py_div (sum_list (map (\<lambda>x. (real_of_int x - m) ^ 2) profs))
                               (real_of_int (int (length profs) - 1)) of
                          Inl err \<Rightarrow> Inl err
                        | Inr v \<Rightarrow>
                           (case py_sqrt v of
                              Inl err \<Rightarrow> Inl err
                            | Inr sv \<Rightarrow>
                               (case py_sqrt (real (length profs)) of
                                  Inl err \<Rightarrow> Inl err
                                | Inr sn \<Rightarrow>
                                   (case py_div sv sn of
                                      Inl err \<Rightarrow> Inl err
                                    | Inr se \<Rightarrow>
                                       Inr ((m - 1.96 * se) / 2 * 100, (m + 1.96 * se) / 2 * 100))))))
                 else Inr (bb100, bb100)))))"

section \<open>StyleBasedTestRunner.py: the style-based player\<close>

record StyleDefinition =
  def_name :: string
  def_threshold :: int
  def_vpip :: real
  def_aggression :: real
  def_description :: string

definition STYLE_DEFINITIONS :: "string \<rightharpoonup> StyleDefinition" where
  "STYLE_DEFINITIONS = map_of
     [(''rock'', \<lparr> def_name = ''Rock (Tight-Passive)'', def_threshold = 75, def_vpip = 0.15,
                   def_aggression = 0.3,
                   def_description = ''Plays only premium hands, rarely raises'' \<rparr>),
      (''tag'', \<lparr> def_name = ''TAG (Tight-Aggressive)'', def_threshold = 55, def_vpip = 0.25,
                  def_aggression = 0.7,
                  def_description = ''Selective but aggressive when entering pots'' \<rparr>),
      (''lag'', \<lparr> def_name = ''LAG (Loose-Aggressive)'', def_threshold = 40, def_vpip = 0.38,
                  def_aggression = 0.8,
                  def_description = ''Wide range with frequent aggression'' \<rparr>)]"

definition POSITION_MODIFIERS :: "string \<rightharpoonup> int" where
  "POSITION_MODIFIERS = map_of
     [(''UTG'', -15), (''EP'', -15), (''MP'', -8), (''CO'', 0), (''BTN'', 12), (''button'', 12),
      (''SB'', -5), (''blind'', -5), (''BB'', -2)]"

text \<open>A PyPokerEngine card is a string: one suit character followed by the rank.\<close>

record pcard =
  pc_suit :: char
  pc_rank :: string

text \<open>An entry of \<^verbatim>\<open>valid_actions\<close>: the action name selects the shape of the amount.\<close>

datatype valid_action = VFold | VCall int | VRaise int int

fun call_action_of :: "valid_action list \<Rightarrow> int option" where
  \<comment> \<open>\<^verbatim>\<open>next((a for a in valid_actions if a["action"] == "call"), None)\<close>, its amount\<close>
  "call_action_of [] = None"
| "call_action_of (VCall amt # vs) = Some amt"
| "call_action_of (v # vs) = call_action_of vs"

fun raise_action_of :: "valid_action list \<Rightarrow> (int \<times> int) option" where
  \<comment> \<open>the first raise entry, its \<^verbatim>\<open>min\<close> and \<^verbatim>\<open>max\<close>\<close>
  "raise_action_of [] = None"
| "raise_action_of (VRaise mn mx # vs) = Some (mn, mx)"
| "raise_action_of (v # vs) = raise_action_of vs"

record seat =
  seat_uuid :: string
  seat_stack :: int
  seat_state :: string
  seat_name :: string

record round_state =
  rs_street :: string
  rs_community_card :: "pcard list"
  rs_pot :: int
  rs_seats :: "seat list"

record SessionStats =
  stat_style :: string
  hands_played :: int
  stat_hands_won :: int
  stat_total_profit :: int
  stat_advisor_calls :: int
  stat_api_errors :: int
  stat_actions :: "string \<Rightarrow> int"
  streets_reached :: "string \<Rightarrow> int"
  profits_by_street :: "string \<Rightarrow> int"

record current_hand =
  ch_hand_id :: "int option"
  ch_street :: "string option"
  ch_hole_cards :: "pcard list option"
  ch_board :: "pcard list option"
  ch_pot :: "int option"
  ch_stack_before :: "int option"
  ch_advisor_action :: "string option"
  ch_advisor_confidence :: "real option"
  ch_error :: bool
  ch_action_taken :: "string option"
  ch_amount :: "int option"

record SBHandRecord =
  hr_hand_id :: int
  hr_player_name :: string
  hr_style :: string
  hr_hole_cards :: "pcard list"
  hr_board :: "pcard list"
  hr_position :: string
  hr_street_reached :: string
  hr_action_taken :: string
  hr_advisor_recommendation :: "string option"
  hr_advisor_confidence :: "real option"
  hr_pot_size :: int
  hr_stack_before :: int
  hr_stack_after :: int
  profit_loss :: int
  hr_won :: bool
  hr_opponents :: "string list"

record StyleBasedPlayer =
  sb_style :: string
  style_def :: StyleDefinition
  sb_uuid :: string
  hand_records :: "SBHandRecord list"
  sb_current_hand :: current_hand
  stats :: SessionStats
  sb_initial_stack :: int

definition empty_hand :: current_hand where
  "empty_hand =
     \<lparr> ch_hand_id = None, ch_street = None, ch_hole_cards = None, ch_board = None,
       ch_pot = None, ch_stack_before = None, ch_advisor_action = None,
       ch_advisor_confidence = None, ch_error = False, ch_action_taken = None,
       ch_amount = None \<rparr>"

definition new_style_player :: "string \<Rightarrow> string \<Rightarrow> StyleBasedPlayer option" where
  \<comment> \<open>The constructor (an invalid style raises \<^verbatim>\<open>ValueError\<close>), with the uuid the
      engine assigns.\<close>
  "new_style_player st uuid =
     (case STYLE_DEFINITIONS st of
        None \<Rightarrow> None
      | Some d \<Rightarrow>
         Some \<lparr> sb_style = st, style_def = d, sb_uuid = uuid, hand_records = [],
                sb_current_hand = empty_hand,
                stats = \<lparr> stat_style = st, hands_played = 0, stat_hands_won = 0,
                          stat_total_profit = 0, stat_advisor_calls = 0, stat_api_errors = 0,
                          stat_actions = (\<lambda>k. 0), streets_reached = (\<lambda>k. 0),
                          profits_by_street = (\<lambda>k. 0) \<rparr>,
                sb_initial_stack = 10000 \<rparr>)"

definition bb_per_100 :: "SessionStats \<Rightarrow> real" where
  "bb_per_100 s =
     (if hands_played s = 0 then 0
      else (real_of_int (stat_total_profit s) / 20) / (real_of_int (hands_played s) / 100))"

definition record_action :: "act \<Rightarrow> int \<Rightarrow> StyleBasedPlayer \<Rightarrow> StyleBasedPlayer" where
  "record_action a amount pl =
     pl\<lparr> stats := (stats pl)\<lparr> stat_actions :=
                (stat_actions (stats pl))(act_key a := stat_actions (stats pl) (act_key a) + 1) \<rparr>,
         sb_current_hand := (sb_current_hand pl)\<lparr> ch_action_taken := Some (act_key a),
                ch_amount := Some amount \<rparr> \<rparr>"

definition estimate_hand_score :: "pcard list \<Rightarrow> int" where
  "estimate_hand_score hole_card =
     (let ranks = map pc_rank hole_card; suits = map pc_suit hole_card in
      if \<not> distinct ranks then
        (if ''A'' \<in> set ranks \<or> ''K'' \<in> set ranks then 90
         else if ''Q'' \<in> set ranks \<or> ''J'' \<in> set ranks then 60
         else 35)
      else
        (let is_suited = \<not> distinct suits;
             broadway_count = length (filter (\<lambda>r. r \<in> {''A'', ''K'', ''Q'', ''J'', ''T''}) ranks)
         in if is_suited \<and> broadway_count \<ge> 2 then 70
            else if is_suited then 55
            else if broadway_count \<ge> 2 then 50
            else 25))"

fun seat_index :: "string \<Rightarrow> seat list \<Rightarrow> nat \<Rightarrow> nat option" where
  "seat_index u [] i = None"
| "seat_index u (s # ss) i = (if seat_uuid s = u then Some i else seat_index u ss (Suc i))"

definition get_position :: "StyleBasedPlayer \<Rightarrow> round_state \<Rightarrow> string" where
  "get_position pl rs =
     (let num_players = int (length (rs_seats rs)) in
      case seat_index (sb_uuid pl) (rs_seats rs) 0 of
        None \<Rightarrow> ''MP''
      | Some n \<Rightarrow>
         (let i = int n in
          if i = 0 then ''BTN''
          else if i = num_players - 1 then ''BB''
          else if i = num_players - 2 then ''SB''
          else if i \<le> num_players div 3 then ''EP''
          else if i \<le> 2 * num_players div 3 then ''MP''
          else ''CO''))"

fun get_my_stack_in :: "string \<Rightarrow> seat list \<Rightarrow> int option" where
  "get_my_stack_in u [] = None"
| "get_my_stack_in u (s # ss) = (if seat_uuid s = u then Some (seat_stack s) else get_my_stack_in u ss)"

definition get_my_stack :: "StyleBasedPlayer \<Rightarrow> round_state \<Rightarrow> int" where
  "get_my_stack pl rs =
     (case get_my_stack_in (sb_uuid pl) (rs_seats rs) of
        None \<Rightarrow> sb_initial_stack pl | Some s \<Rightarrow> s)"

text \<open>The advisor as the style-based player reads it: a call fails, or yields the
  lower-cased action, the parsed confidence and the sizing field, each of which may be
  of a shape on which the reading code raises.\<close>

datatype conf_field = Conf real | ConfBad

datatype sb_reply = SBFailed | SBReply action_field conf_field sizing_field

record sb_env =
  sb_random :: "nat \<Rightarrow> real"
  sb_advisor :: "nat \<Rightarrow> advisor_query \<Rightarrow> sb_reply"

definition sb_draw :: "sb_env \<Rightarrow> world \<Rightarrow> real \<times> world" where
  "sb_draw e w = (sb_random e (draws_used w), w\<lparr> draws_used := Suc (draws_used w) \<rparr>)"

definition preflop_action ::
  "sb_env \<Rightarrow> StyleBasedPlayer \<Rightarrow> world \<Rightarrow> valid_action list \<Rightarrow> pcard list \<Rightarrow> round_state
     \<Rightarrow> (act \<times> int) \<times> StyleBasedPlayer \<times> world" where
  "preflop_action e pl w valid_actions hole_card rs =
     (let hand_score = estimate_hand_score hole_card;
          pos = get_position pl rs;
          position_mod = (case POSITION_MODIFIERS pos of None \<Rightarrow> 0 | Some m \<Rightarrow> m);
          adjusted_score = hand_score + position_mod;
          threshold' = def_threshold (style_def pl);
          aggression' = def_aggression (style_def pl);
          call_action = call_action_of valid_actions;
          raise_action = raise_action_of valid_actions;
          call_amount = (case call_action of None \<Rightarrow> 0 | Some a \<Rightarrow> a);
          below =
            (if call_action \<noteq> None \<and> call_amount = 0 then (Call, 0)
             else if call_action \<noteq> None \<and> call_amount \<le> 10 \<and> adjusted_score \<ge> threshold' - 20
             then (Call, call_amount)
             else (Fold, 0))
      in if adjusted_score \<ge> threshold' then
           (case raise_action of
              Some (min_raise, max_raise) \<Rightarrow>
                (let (u, w1) = sb_draw e w in
                 if u < aggression' then
                   (let raise_mult = (if sb_style pl = ''rock'' then 2.5
                                      else (if sb_style pl = ''tag'' then 3.0 else 3.5));
                        raise_amt = min (py_trunc (real_of_int call_amount * raise_mult + 10)) max_raise;
                        raise_amt' = max raise_amt min_raise
                    in ((Raise, raise_amt'), record_action Raise raise_amt' pl, w1))
                 else if call_action \<noteq> None then
                   ((Call, call_amount), record_action Call call_amount pl, w1)
                 else (below, record_action (fst below) (snd below) pl, w1))
            | None \<Rightarrow>
                (if call_action \<noteq> None then
                   ((Call, call_amount), record_action Call call_amount pl, w)
                 else (below, record_action (fst below) (snd below) pl, w)))
         else (below, record_action (fst below) (snd below) pl, w))"

definition py_lower_char :: "char \<Rightarrow> char" where
  \<comment> \<open>\<^verbatim>\<open>str.lower\<close> on one ASCII character\<close>
  "py_lower_char c =
     (let n = (of_char c :: nat) in if 65 \<le> n \<and> n \<le> 90 then char_of (n + 32) else c)"

definition convert_card :: "pcard \<Rightarrow> string" where
  "convert_card c =
     (let suit = (case map_of [(CHR ''C'', ''c''), (CHR ''D'', ''d''), (CHR ''H'', ''h''),
                               (CHR ''S'', ''s'')] (pc_suit c) of
                    Some s \<Rightarrow> s | None \<Rightarrow> [py_lower_char (pc_suit c)]);
          rnk = (if pc_rank c \<noteq> ''T'' then pc_rank c else ''10'')
      in rnk @ suit)"

definition build_request ::
  "StyleBasedPlayer \<Rightarrow> pcard list \<Rightarrow> round_state \<Rightarrow> valid_action list \<Rightarrow> advisor_query" where
  \<comment> \<open>The hole cards are padded with \<^verbatim>\<open>2c\<close> up to four.\<close>
  "build_request pl hole_card rs valid_actions =
     (let hole_cards = map convert_card hole_card;
          padded = hole_cards @ replicate (4 - length hole_cards) ''2c'';
          call_amount = (case call_action_of valid_actions of None \<Rightarrow> 0 | Some a \<Rightarrow> a);
          active = length (filter (\<lambda>s. seat_state s = ''participating'') (rs_seats rs))
      in \<lparr> q_gameVariant = 4, q_street = rs_street rs, q_holeCards = padded,
            q_board = map convert_card (rs_community_card rs),
            q_position = get_position pl rs, q_playersInHand = int active,
            q_potSize = rs_pot rs, q_toCall = call_amount,
            q_stackSize = get_my_stack pl rs, q_style = sb_style pl \<rparr>)"

text \<open>Reading \<^verbatim>\<open>sizing\<close>: \<^verbatim>\<open>sizing.get("optimal", min_r) if sizing else min_r\<close> followed
  by \<^verbatim>\<open>int(opt)\<close>; \<open>None\<close> when one of the two raises.\<close>

fun optimal_or :: "sizing_field \<Rightarrow> int \<Rightarrow> int option" where
  "optimal_or NoOptimal min_r = Some min_r"
| "optimal_or (Optimal n) min_r = Some n"
| "optimal_or FalsyNotDict min_r = Some min_r"
| "optimal_or NotADict min_r = None"
| "optimal_or OptimalNotInt min_r = None"

fun unguarded_optimal_or :: "sizing_field \<Rightarrow> int \<Rightarrow> int option" where
  \<comment> \<open>\<^verbatim>\<open>int(sizing.get("optimal", min_r))\<close>, with no test of \<^verbatim>\<open>sizing\<close> first\<close>
  "unguarded_optimal_or NoOptimal min_r = Some min_r"
| "unguarded_optimal_or (Optimal n) min_r = Some n"
| "unguarded_optimal_or FalsyNotDict min_r = None"
| "unguarded_optimal_or NotADict min_r = None"
| "unguarded_optimal_or OptimalNotInt min_r = None"

definition execute_action ::
  "string \<Rightarrow> sizing_field \<Rightarrow> valid_action list \<Rightarrow> (act \<times> int) option" where
  "execute_action action sizing valid_actions =
     (let call_or_fold = (case call_action_of valid_actions of
                            Some amt \<Rightarrow> (Call, amt) | None \<Rightarrow> (Fold, 0))
      in if action = ''fold'' then Some (Fold, 0)
         else if action \<in> {''call'', ''check''} then Some call_or_fold
         else if action \<in> {''raise'', ''bet''} then
           (case raise_action_of valid_actions of
              Some (min_r, max_r) \<Rightarrow>
                (case optimal_or sizing min_r of
                   None \<Rightarrow> None
                 | Some opt \<Rightarrow> Some (Raise, max min_r (min opt max_r)))
            | None \<Rightarrow> Some call_or_fold)
         else (case call_action_of valid_actions of
                 Some amt \<Rightarrow> (if amt = 0 then Some (Call, 0) else Some (Fold, 0))
               | None \<Rightarrow> Some (Fold, 0)))"

definition apply_style_adjustment ::
  "sb_env \<Rightarrow> StyleBasedPlayer \<Rightarrow> world \<Rightarrow> string \<Rightarrow> real \<Rightarrow> sizing_field \<Rightarrow> valid_action list
     \<Rightarrow> (act \<times> int) option \<times> world" where
  \<comment> \<open>\<open>None\<close>: an exception was raised while reading \<^verbatim>\<open>sizing\<close>.\<close>
  "apply_style_adjustment e pl w advisor_action confidence sizing valid_actions =
     (let aggression' = def_aggression (style_def pl);
          \<comment> \<open>rock: some raises become calls\<close>
          (rock_says, w1) =
            (if sb_style pl = ''rock'' \<and> advisor_action \<in> {''raise'', ''bet''} then
               (if confidence < 0.7 then (True, w)
                else (let (u, w') = sb_draw e w in (u > aggression', w'))) 
             else (False, w))
      in if rock_says \<and> call_action_of valid_actions \<noteq> None then
           (Some (Call, the (call_action_of valid_actions)), w1)
         else
           (let \<comment> \<open>lag: some calls become raises\<close>
                (lag_says, w2) =
                  (if sb_style pl = ''lag'' \<and> advisor_action = ''call'' then
                     (if confidence > 0.4 then
                        (let (u, w') = sb_draw e w1 in (u < aggression', w'))
                      else (False, w1))
                   else (False, w1))
            in if lag_says \<and> raise_action_of valid_actions \<noteq> None then
                 (let (min_r, max_r) = the (raise_action_of valid_actions) in
                  case unguarded_optimal_or sizing min_r of
                    None \<Rightarrow> (None, w2)
                  | Some opt \<Rightarrow> (Some (Raise, max (min opt max_r) min_r), w2))
               else if sb_style pl = ''tag'' \<and> advisor_action \<in> {''raise'', ''bet''}
                       \<and> confidence > 0.6 \<and> raise_action_of valid_actions \<noteq> None then
                 (let (min_r, max_r) = the (raise_action_of valid_actions) in
                  case optimal_or sizing min_r of
                    None \<Rightarrow> (None, w2)
                  | Some opt \<Rightarrow> (Some (Raise, max min_r (min opt max_r)), w2))
               else (execute_action advisor_action sizing valid_actions, w2)))"

definition fallback_action :: "valid_action list \<Rightarrow> act \<times> int" where
  \<comment> \<open>The \<^verbatim>\<open>except\<close> branch: call if free, else fold.\<close>
  "fallback_action valid_actions =
     (case call_action_of valid_actions of
        Some amt \<Rightarrow> (if amt = 0 then (Call, 0) else (Fold, 0))
      | None \<Rightarrow> (Fold, 0))"

definition note_sb_error :: "StyleBasedPlayer \<Rightarrow> StyleBasedPlayer" where
  "note_sb_error pl =
     pl\<lparr> stats := (stats pl)\<lparr> stat_api_errors := stat_api_errors (stats pl) + 1 \<rparr>,
         sb_current_hand := (sb_current_hand pl)\<lparr> ch_error := True \<rparr> \<rparr>"

definition postflop_action ::
  "sb_env \<Rightarrow> StyleBasedPlayer \<Rightarrow> world \<Rightarrow> valid_action list \<Rightarrow> pcard list \<Rightarrow> round_state
     \<Rightarrow> (act \<times> int) \<times> StyleBasedPlayer \<times> world" where
  "postflop_action e pl w valid_actions hole_card rs =
     (let game_state = build_request pl hole_card rs valid_actions;
          w1 = w\<lparr> calls_made := Suc (calls_made w) \<rparr>
      in case sb_advisor e (calls_made w) game_state of
           SBFailed \<Rightarrow> (fallback_action valid_actions, note_sb_error pl, w1)
         | SBReply af cf sizing \<Rightarrow>
            (let pl1 = pl\<lparr> stats := (stats pl)\<lparr> stat_advisor_calls :=
                                 stat_advisor_calls (stats pl) + 1 \<rparr> \<rparr>
             in case af of
                  ActionBad \<Rightarrow> (fallback_action valid_actions, note_sb_error pl1, w1)
                | ActionStr action \<Rightarrow>
                   (case cf of
                      ConfBad \<Rightarrow> (fallback_action valid_actions, note_sb_error pl1, w1)
                    | Conf confidence \<Rightarrow>
                       (let pl2 = pl1\<lparr> sb_current_hand := (sb_current_hand pl1)
                                    \<lparr> ch_advisor_action := Some action,
                                      ch_advisor_confidence := Some confidence \<rparr> \<rparr>
                        in case apply_style_adjustment e pl2 w1 action confidence sizing
                                  valid_actions of
                             (None, w2) \<Rightarrow> (fallback_action valid_actions, note_sb_error pl2, w2)
                           | (Some (final_action, amount), w2) \<Rightarrow>
                               ((final_action, amount),
                                record_action final_action amount pl2, w2)))))"

definition declare_action ::
  "sb_env \<Rightarrow> StyleBasedPlayer \<Rightarrow> world \<Rightarrow> valid_action list \<Rightarrow> pcard list \<Rightarrow> round_state
     \<Rightarrow> (act \<times> int) \<times> StyleBasedPlayer \<times> world" where
  "declare_action e pl w valid_actions hole_card rs =
     (let street = rs_street rs;
          my_stack = get_my_stack pl rs;
          pl1 = pl\<lparr> sb_current_hand := (sb_current_hand pl)
                       \<lparr> ch_street := Some street, ch_hole_cards := Some hole_card,
                         ch_board := Some (rs_community_card rs), ch_pot := Some (rs_pot rs),
                         ch_stack_before := Some my_stack \<rparr>,
                    stats := (stats pl)\<lparr> streets_reached :=
                       (streets_reached (stats pl))(street := streets_reached (stats pl) street + 1) \<rparr> \<rparr>
      in if length (rs_community_card rs) < 3 then
           preflop_action e pl1 w valid_actions hole_card rs
         else postflop_action e pl1 w valid_actions hole_card rs)"

text \<open>The engine's callbacks around a round.\<close>

definition receive_round_start_message :: "StyleBasedPlayer \<Rightarrow> int \<Rightarrow> StyleBasedPlayer" where
  "receive_round_start_message pl round_count =
     pl\<lparr> stats := (stats pl)\<lparr> hands_played := hands_played (stats pl) + 1 \<rparr>,
         sb_current_hand := empty_hand\<lparr> ch_hand_id := Some round_count \<rparr> \<rparr>"

definition receive_round_result_message ::
  "StyleBasedPlayer \<Rightarrow> string list \<Rightarrow> round_state \<Rightarrow> StyleBasedPlayer" where
  \<comment> \<open>\<open>winners\<close>: the uuids of the winners.\<close>
  "receive_round_result_message pl winners rs =
     (let won = (sb_uuid pl \<in> set winners);
          final_stack = get_my_stack pl rs;
          ch = sb_current_hand pl;
          stack_before = (case ch_stack_before ch of None \<Rightarrow> sb_initial_stack pl | Some s \<Rightarrow> s);
          profit' = final_stack - stack_before;
          street = (case ch_street ch of None \<Rightarrow> ''preflop'' | Some s \<Rightarrow> s);
          st = stats pl;
          st1 = st\<lparr> stat_hands_won := (if won then stat_hands_won st + 1 else stat_hands_won st),
                    stat_total_profit := stat_total_profit st + profit',
                    profits_by_street :=
                      (profits_by_street st)(street := profits_by_street st street + profit') \<rparr>;
          rec = \<lparr> hr_hand_id = (case ch_hand_id ch of None \<Rightarrow> 0 | Some h \<Rightarrow> h),
                  hr_player_name = sb_uuid pl, hr_style = sb_style pl,
                  hr_hole_cards = (case ch_hole_cards ch of None \<Rightarrow> [] | Some c \<Rightarrow> c),
                  hr_board = (case ch_board ch of None \<Rightarrow> [] | Some b \<Rightarrow> b),
                  hr_position = get_position pl rs, hr_street_reached = street,
                  hr_action_taken = (case ch_action_taken ch of None \<Rightarrow> ''unknown'' | Some a \<Rightarrow> a),
                  hr_advisor_recommendation = ch_advisor_action ch,
                  hr_advisor_confidence = ch_advisor_confidence ch,
                  hr_pot_size = (case ch_pot ch of None \<Rightarrow> 0 | Some v \<Rightarrow> v),
                  hr_stack_before = stack_before, hr_stack_after = final_stack,
                  profit_loss = profit', hr_won = won,
                  hr_opponents = map seat_name (filter (\<lambda>s. seat_uuid s \<noteq> sb_uuid pl) (rs_seats rs)) \<rparr>
      in pl\<lparr> stats := st1, hand_records := hand_records pl @ [rec] \<rparr>)"

text \<open>One round as the engine drives it: the start message, the decisions asked of
  this player, the result message.\<close>

fun declare_all ::
  "sb_env \<Rightarrow> StyleBasedPlayer \<Rightarrow> world \<Rightarrow> (valid_action list \<times> pcard list \<times> round_state) list
     \<Rightarrow> StyleBasedPlayer \<times> world" where
  "declare_all e pl w [] = (pl, w)"
| "declare_all e pl w ((va, hole, rs) # rest) =
     (case declare_action e pl w va hole rs of (d, pl1, w1) \<Rightarrow> declare_all e pl1 w1 rest)"

type_synonym sb_round =
  "int \<times> (valid_action list \<times> pcard list \<times> round_state) list \<times> string list \<times> round_state"

fun play_rounds :: "sb_env \<Rightarrow> StyleBasedPlayer \<Rightarrow> world \<Rightarrow> sb_round list \<Rightarrow> StyleBasedPlayer \<times> world" where
  "play_rounds e pl w [] = (pl, w)"
| "play_rounds e pl w ((round_count, asks, winners, rs) # rest) =
     (case declare_all e (receive_round_start_message pl round_count) w asks of
        (pl1, w1) \<Rightarrow> play_rounds e (receive_round_result_message pl1 winners rs) w1 rest)"

text \<open>The interval computed in \<^verbatim>\<open>analyze_results\<close> for one player, before the
  rounding to two decimals that is applied when it is stored in the result
  dictionary: \<^verbatim>\<open>(ci_lower_bb100, ci_upper_bb100)\<close>.\<close>

definition analyze_ci :: "StyleBasedPlayer \<Rightarrow> py_error + real \<times> real" where
  "analyze_ci pl =
     (let records = hand_records pl; bb100 = bb_per_100 (stats pl) in
      if length records > 1 then
        (let profits = map profit_loss records in
         case py_div (real_of_int (sum_list profits)) (real (length profits)) of
           Inl err \<Rightarrow> Inl err
         | Inr mean_profit \<Rightarrow>
            (case py_div (sum_list (map (\<lambda>x. (real_of_int x - mean_profit) ^ 2) profits))
                    (real_of_int (int (length profits) - 1)) of
               Inl err \<Rightarrow> Inl err
             | Inr variance \<Rightarrow>
                (case py_sqrt variance of
                   Inl err \<Rightarrow> Inl err
                 | Inr std_dev \<Rightarrow>
                    (case py_sqrt (real (length profits)) of
                       Inl err \<Rightarrow> Inl err
                     | Inr root_n \<Rightarrow>
                        (case py_div std_dev root_n of
                           Inl err \<Rightarrow> Inl err
                         | Inr std_error \<Rightarrow>
                            (let ci_lower = mean_profit - 1.96 * std_error;
                                 ci_upper = mean_profit + 1.96 * std_error
                             in Inr ((ci_lower / 20) * 100, (ci_upper / 20) * 100)))))))
      else Inr (bb100, bb100))"

section \<open>HandDataCapture.py: session summary, head-to-head attribution\<close>

text \<open>One player's result for a hand. The list of betting actions is left out: the
  head-to-head loop does not read it.\<close>

record PlayerHandResult =
  ph_seat :: int
  ph_name :: string
  ph_strategy :: string
  ph_hole_cards :: "string list"
  stack_start :: int
  stack_end :: int
  stack_change :: int
  went_to_showdown :: bool
  won_hand :: bool
  won_amount :: int
  folded_street :: "string option"

record HandRecord =
  rec_hand_id :: int
  rec_variant :: string
  rec_num_players :: int
  rec_board :: "string list"
  rec_players :: "PlayerHandResult list"
  rec_pot_size :: int
  rec_winners :: "string list"

text \<open>\<^verbatim>\<open>h2h = defaultdict(lambda: defaultdict(int))\<close>: an entry exists once it has been
  added to, also when the amount added is 0. The nested dictionary is kept as a map
  on pairs of strategies (an outer key exists exactly if one of its inner keys does).\<close>

type_synonym h2h_table = "string \<times> string \<rightharpoonup> int"

definition h2h_add :: "h2h_table \<Rightarrow> string \<times> string \<Rightarrow> int \<Rightarrow> h2h_table" where
  \<comment> \<open>\<^verbatim>\<open>h2h[s1][s2] += delta\<close>\<close>
  "h2h_add m k delta = m(k \<mapsto> (case m k of None \<Rightarrow> 0 | Some v \<Rightarrow> v) + delta)"

definition h2h_opponents :: "h2h_table \<Rightarrow> PlayerHandResult \<Rightarrow> PlayerHandResult list \<Rightarrow> h2h_table" where
  \<comment> \<open>\<^verbatim>\<open>for opponent in hand.players: if opponent.name != player.name: ...\<close>\<close>
  "h2h_opponents m player opps =
     fold (\<lambda>opponent m'.
             if ph_name opponent \<noteq> ph_name player
             then h2h_add m' (ph_strategy player, ph_strategy opponent) (stack_change player)
             else m') opps m"

definition h2h_hand :: "h2h_table \<Rightarrow> HandRecord \<Rightarrow> h2h_table" where
  \<comment> \<open>\<^verbatim>\<open>for player in hand.players\<close>\<close>
  "h2h_hand m hand = fold (\<lambda>player m'. h2h_opponents m' player (rec_players hand)) (rec_players hand) m"

definition head_to_head :: "HandRecord list \<Rightarrow> h2h_table" where
  \<comment> \<open>\<^verbatim>\<open>summary.head_to_head\<close> of \<^verbatim>\<open>generate_session_summary\<close> for \<^verbatim>\<open>self.hands\<close>\<close>
  "head_to_head hands' = fold (\<lambda>hand m. h2h_hand m hand) hands' Map.empty"

section \<open>Auxiliary notions used in the statements\<close>

text \<open>The part of an Omaha player's state that tracks voluntary participation.\<close>

definition vpip_state :: "OmahaPlayer \<Rightarrow> int \<times> bool" where
  "vpip_state p = (vpip_hands p, vpip_this_hand p)"

definition vpip_advance :: "OmahaPlayer \<Rightarrow> OmahaPlayer \<Rightarrow> bool" where
  \<comment> \<open>From \<open>p\<close> to \<open>p'\<close> the counter moved by one exactly if the per-hand flag was
      raised, and a raised flag stays raised.\<close>
  "vpip_advance p p' =
     (vpip_hands p' = vpip_hands p + (if vpip_this_hand p' \<and> \<not> vpip_this_hand p then 1 else 0)
      \<and> (vpip_this_hand p \<longrightarrow> vpip_this_hand p'))"

text \<open>The specification's wording of the confidence interval: sample mean plus or
  minus 1.96 standard errors, the standard error being the (sample) standard deviation
  divided by the square root of the sample size.\<close>

definition sample_mean :: "int list \<Rightarrow> real" where
  "sample_mean xs = real_of_int (sum_list xs) / real (length xs)"

definition sample_stddev :: "int list \<Rightarrow> real" where
  "sample_stddev xs =
     sqrt (sum_list (map (\<lambda>x. (real_of_int x - sample_mean xs) ^ 2) xs) / (real (length xs) - 1))"

definition standard_error :: "int list \<Rightarrow> real" where
  "standard_error xs = sample_stddev xs / sqrt (real (length xs))"

text \<open>The bookkeeping fields the intervals are computed from, and the relation that
  ties the counters to the recorded samples.\<close>

definition book :: "OmahaPlayer \<Rightarrow> int \<times> int \<times> int list" where
  "book p = (hands p, profit p, per_hand p)"

definition book_consistent :: "OmahaPlayer \<Rightarrow> bool" where
  "book_consistent p = (hands p = int (length (per_hand p)) \<and> profit p = sum_list (per_hand p))"

definition sb_book :: "StyleBasedPlayer \<Rightarrow> int \<times> int \<times> SBHandRecord list" where
  "sb_book pl = (hands_played (stats pl), stat_total_profit (stats pl), hand_records pl)"

definition sb_book_consistent :: "StyleBasedPlayer \<Rightarrow> bool" where
  "sb_book_consistent pl =
     (hands_played (stats pl) = int (length (hand_records pl))
      \<and> stat_total_profit (stats pl) = sum_list (map profit_loss (hand_records pl)))"

text \<open>Head-to-head attribution. \<open>pair_terms\<close> lists, for a pair of strategies, the stack
  deltas the code adds up: one for every ordered pair of differently named players of
  a hand that carry the two strategies.\<close>

definition opponent_terms ::
  "string \<times> string \<Rightarrow> PlayerHandResult \<Rightarrow> PlayerHandResult list \<Rightarrow> int list" where
  "opponent_terms k player opps =
     concat (map (\<lambda>opponent.
        if ph_name opponent \<noteq> ph_name player \<and> (ph_strategy player, ph_strategy opponent) = k
        then [stack_change player] else []) opps)"

definition hand_terms :: "string \<times> string \<Rightarrow> HandRecord \<Rightarrow> int list" where
  "hand_terms k hand = concat (map (\<lambda>player. opponent_terms k player (rec_players hand)) (rec_players hand))"

definition pair_terms :: "string \<times> string \<Rightarrow> HandRecord list \<Rightarrow> int list" where
  "pair_terms k hands' = concat (map (hand_terms k) hands')"

text \<open>The specification's wording: for an ordered pair of distinct styles present
  together in a hand, the sum over those hands of the first style's stack delta; no
  entry for a pair of identical styles.\<close>

definition style_delta :: "string \<Rightarrow> HandRecord \<Rightarrow> int" where
  "style_delta s hand = sum_list (map stack_change (filter (\<lambda>p. ph_strategy p = s) (rec_players hand)))"

definition both_present :: "string \<Rightarrow> string \<Rightarrow> HandRecord \<Rightarrow> bool" where
  "both_present s1 s2 hand =
     (s1 \<in> set (map ph_strategy (rec_players hand)) \<and> s2 \<in> set (map ph_strategy (rec_players hand)))"

definition claimed_head_to_head :: "HandRecord list \<Rightarrow> h2h_table" where
  "claimed_head_to_head hands' =
     (\<lambda>(s1, s2).
        if s1 \<noteq> s2 \<and> list_ex (both_present s1 s2) hands'
        then Some (sum_list (map (style_delta s1) (filter (both_present s1 s2) hands')))
        else None)"

definition accumulate :: "int option \<Rightarrow> int list \<Rightarrow> int option" where
  \<comment> \<open>The entry after adding the terms one by one to an entry that may not exist yet.\<close>
  "accumulate v ts =
     (if ts = [] then v else Some ((case v of None \<Rightarrow> 0 | Some x \<Rightarrow> x) + sum_list ts))"

text \<open>A decision point at which \<^verbatim>\<open>_postflop\<close> in oracle mode turns to the advisor: a
  street after the first, with at least three community cards.\<close>

definition advisor_point :: "observation \<times> int \<Rightarrow> bool" where
  "advisor_point pt = (snd pt \<noteq> 0 \<and> 3 \<le> length (o_community_cards (fst pt)))"

text \<open>Two runs of a player are compared up to the two fields that tell oracle mode
  from heuristic mode (the mode flag and the error counter) and up to the number of
  advisor calls made.\<close>

definition mark :: "bool \<Rightarrow> int \<Rightarrow> OmahaPlayer \<Rightarrow> OmahaPlayer" where
  "mark f x p = p\<lparr> fast_mode := f, api_errors := x \<rparr>"

definition with_calls :: "nat \<Rightarrow> world \<Rightarrow> world" where
  "with_calls c w = w\<lparr> calls_made := c \<rparr>"

text \<open>What a returned decision has to satisfy. For the Omaha player a fold is the
  integer \<open>-1\<close>, which is how the \<^verbatim>\<open>clubs\<close> dealer is told to fold; the style-based
  player returns \<^verbatim>\<open>("fold", 0)\<close>.\<close>

definition omaha_legal :: "int \<Rightarrow> int \<Rightarrow> int \<Rightarrow> act \<times> int \<Rightarrow> bool" where
  "omaha_legal call mnr mxr d =
     (case fst d of
        Fold \<Rightarrow> snd d = - 1
      | Call \<Rightarrow> snd d = call
      | Raise \<Rightarrow> mnr \<le> snd d \<and> snd d \<le> mxr)"

definition sb_legal :: "valid_action list \<Rightarrow> act \<times> int \<Rightarrow> bool" where
  "sb_legal va d =
     (case fst d of
        Fold \<Rightarrow> snd d = 0
      | Call \<Rightarrow> call_action_of va = Some (snd d)
      | Raise \<Rightarrow> (case raise_action_of va of
                    None \<Rightarrow> False
                  | Some (mn, mx) \<Rightarrow> mn \<le> snd d \<and> snd d \<le> mx))"

definition raise_range_ok :: "valid_action list \<Rightarrow> bool" where
  \<comment> \<open>The raise entry of a legal-action set, if there is one, has \<open>min \<le> max\<close>.\<close>
  "raise_range_ok va = (case raise_action_of va of None \<Rightarrow> True | Some (mn, mx) \<Rightarrow> mn \<le> mx)"

section \<open>Concrete inputs\<close>

text \<open>A loose-aggressive player built from the hardcoded tables, a double-suited
  Aces-and-Kings hand, and observations before and after the flop.\<close>

definition lag_player :: "bool \<Rightarrow> OmahaPlayer" where
  "lag_player fm =
     reset_stats
       \<lparr> idx = 0, style = ''lag'',
         sd = mk_style ''LAG (Loose-Aggressive)'' 0.35 0.65 0.75 0.65 0.30 1.0 0.40 0.60 0.50,
         variant = 4, fast_mode = fm, threshold = 50.5,
         hands = 0, wins = 0, profit = 0, advisor_calls = 0, api_errors = 0,
         actions = (\<lambda>k. 0), streets = (\<lambda>k. 0), per_hand = [],
         vpip_hands = 0, vpip_this_hand = False \<rparr>"

definition aces_kings :: "pycard list" where
  "aces_kings = [Card ''A'' ''s'', Card ''A'' ''h'', Card ''K'' ''h'', Card ''K'' ''s'']"

definition preflop_obs :: observation where
  "preflop_obs =
     \<lparr> o_call = 2, o_pot = 3, o_stacks = Some [200, 200], o_min_raise = 4, o_max_raise = 7,
       o_hole_cards = aces_kings, o_community_cards = [] \<rparr>"

definition flop_obs :: observation where
  "flop_obs =
     \<lparr> o_call = 4, o_pot = 8, o_stacks = Some [196, 196], o_min_raise = 8, o_max_raise = 20,
       o_hole_cards = aces_kings,
       o_community_cards = [Card ''2'' ''c'', Card ''7'' ''d'', Card ''9'' ''c''] \<rparr>"

definition failing_env :: "real \<Rightarrow> env" where
  \<comment> \<open>Every random draw is \<open>u\<close>; every advisor call fails.\<close>
  "failing_env u = \<lparr> random = (\<lambda>n. u), advisor = (\<lambda>n q. Failed) \<rparr>"

definition world0 :: world where
  "world0 = \<lparr> draws_used = 0, calls_made = 0 \<rparr>"

definition sb_failing_env :: "real \<Rightarrow> sb_env" where
  "sb_failing_env u = \<lparr> sb_random = (\<lambda>n. u), sb_advisor = (\<lambda>n q. SBFailed) \<rparr>"

definition table_with :: "int \<Rightarrow> int \<Rightarrow> round_state" where
  \<comment> \<open>Two seats, the first one the player \<^verbatim>\<open>u1\<close>, with the given stacks.\<close>
  "table_with s1 s2 =
     \<lparr> rs_street = ''river'', rs_community_card = [], rs_pot = 100,
       rs_seats = [\<lparr> seat_uuid = ''u1'', seat_stack = s1, seat_state = ''participating'',
                      seat_name = ''TAG'' \<rparr>,
                   \<lparr> seat_uuid = ''u2'', seat_stack = s2, seat_state = ''participating'',
                      seat_name = ''LAG'' \<rparr>] \<rparr>"

definition two_rounds :: "sb_round list" where
  "two_rounds = [(1, [], [''u1''], table_with 10050 9950), (2, [], [''u2''], table_with 9970 10030)]"

definition two_hands :: "(OmahaPlayer \<times> world \<times> omaha_hand list) list" where
  "two_hands = [(lag_player True, world0, [(2, 0, [(preflop_obs, 0)], Some 5), (2, 1, [], Some (- 3))])]"

definition hand_result :: "string \<Rightarrow> string \<Rightarrow> int \<Rightarrow> PlayerHandResult" where
  "hand_result nm strat delta =
     \<lparr> ph_seat = 0, ph_name = nm, ph_strategy = strat, ph_hole_cards = [],
       stack_start = 1000, stack_end = 1000 + delta, stack_change = delta,
       went_to_showdown = False, won_hand = (delta > 0), won_amount = (if delta > 0 then delta else 0),
       folded_street = None \<rparr>"

definition three_way_hand :: HandRecord where
  \<comment> \<open>Two differently named players of style \<^verbatim>\<open>tag\<close> and one of style \<^verbatim>\<open>lag\<close>.\<close>
  "three_way_hand =
     \<lparr> rec_hand_id = 1, rec_variant = ''omaha4'', rec_num_players = 3, rec_board = [],
       rec_players = [hand_result ''tag_1'' ''tag'' 10, hand_result ''tag_2'' ''tag'' (- 4),
                  hand_result ''lag_3'' ''lag'' (- 6)],
       rec_pot_size = 20, rec_winners = [''tag_1''] \<rparr>"

definition pocket_aces :: "pcard list" where
  "pocket_aces = [\<lparr> pc_suit = CHR ''H'', pc_rank = ''A'' \<rparr>, \<lparr> pc_suit = CHR ''S'', pc_rank = ''A'' \<rparr>]"

definition example_valid_actions :: "valid_action list" where
  "example_valid_actions = [VFold, VCall 10, VRaise 20 100]"

section \<open>Verified properties\<close>

subsection \<open>Trajectory metrics\<close>

text \<open>Claim C4: for initial stack 1000, stack history [1000, 1200, 900, 1500, 1400]
  and hand results [200, -300, 600, -100], \<^verbatim>\<open>compute_metrics\<close> returns normally with
  final stack 1400, total profit 400, peak stack 1500 and maximum drawdown 300. The
  drawdown is taken against the running peak (the global peak-to-trough distance
  1500 - 900 is a different number), and the volatility is the population standard
  deviation of the four hand results.\<close>

theorem trajectory_example_metrics:
  "\<exists>t'. compute_metrics example_trajectory = Inr t'
      \<and> final_stack t' = 1400 \<and> total_profit t' = 400 \<and> peak_stack t' = 1500
      \<and> max_drawdown t' = 300 \<and> max_drawdown t' \<noteq> peak_stack t' - min_stack t'
      \<and> volatility t' = population_stddev [200, -300, 600, -100]"
  by (simp add: compute_metrics_def example_trajectory_def new_trajectory_def
      compute_drawdown_pct_def compute_volatility_def compute_sharpe_def py_div_def py_sqrt_def
      py_max_list_def py_min_list_def population_stddev_def Let_def)

lemma sum_sq_nonneg: "0 \<le> (\<Sum>x\<leftarrow>xs. (real_of_int x - m)\<^sup>2)"
  by (rule sum_list_nonneg) auto

lemma variance_nonneg: "0 \<le> (\<Sum>x\<leftarrow>xs. (real_of_int x - m)\<^sup>2) / real (length xs)"
  by (simp add: sum_sq_nonneg)

lemma compute_volatility_total:
  "\<exists>v. compute_volatility t = Inr v \<and> (length (hand_results t) < 2 \<longrightarrow> v = volatility t)"
proof -
  let ?hr = "hand_results t"
  let ?m = "real_of_int (sum_list ?hr) / real (length ?hr)"
  have "\<not> (\<Sum>x\<leftarrow>?hr. (real_of_int x - ?m)\<^sup>2) / real (length ?hr) < 0"
    using variance_nonneg [of ?m ?hr] by (simp only: not_less)
  then show ?thesis
    by (auto simp: compute_volatility_def py_div_def py_sqrt_def Let_def)
qed

lemma compute_sharpe_total:
  "\<exists>v. compute_sharpe t = Inr v \<and> (volatility t = 0 \<longrightarrow> v = sharpe_ratio t)"
  by (auto simp: compute_sharpe_def py_div_def)

lemma compute_drawdown_pct_total:
  "\<exists>v. compute_drawdown_pct d p = Inr v \<and> (p \<le> 0 \<longrightarrow> v = 0)"
  by (auto simp: compute_drawdown_pct_def py_div_def)

lemma compute_metrics_nonempty:
  assumes "stack_history t \<noteq> []"
  shows "\<exists>t'. compute_metrics t = Inr t'
           \<and> (fst (drawdown_scan (initial_stack t) 0 (stack_history t)) \<le> 0 \<longrightarrow> max_drawdown_pct t' = 0)
           \<and> (length (hand_results t) < 2 \<longrightarrow> volatility t' = volatility t)
           \<and> (volatility t' = 0 \<longrightarrow> sharpe_ratio t' = sharpe_ratio t)"
proof -
  obtain peak max_dd where dd: "drawdown_scan (initial_stack t) 0 (stack_history t) = (peak, max_dd)"
    by (cases "drawdown_scan (initial_stack t) 0 (stack_history t)")
  obtain pct where pct: "compute_drawdown_pct max_dd peak = Inr pct" "peak \<le> 0 \<longrightarrow> pct = 0"
    using compute_drawdown_pct_total by blast
  define t2 where "t2 = t\<lparr> final_stack := last (stack_history t),
       total_profit := last (stack_history t) - initial_stack t,
       peak_stack := py_max_list (stack_history t),
       min_stack := py_min_list (stack_history t),
       max_drawdown := max_dd, max_drawdown_pct := pct \<rparr>"
  obtain vol where vol: "compute_volatility t2 = Inr vol"
      "length (hand_results t2) < 2 \<longrightarrow> vol = volatility t2"
    using compute_volatility_total by blast
  define t3 where "t3 = t2\<lparr> volatility := vol \<rparr>"
  obtain sr where sr: "compute_sharpe t3 = Inr sr" "volatility t3 = 0 \<longrightarrow> sr = sharpe_ratio t3"
    using compute_sharpe_total by blast
  define s where "s = fold (\<lambda>r st. streak_step st r) (hand_results t3)
      \<lparr> s_hands_won = hands_won t3, s_hands_lost = hands_lost t3, current_streak = 0,
        is_winning = None, max_win = 0, max_lose = 0 \<rparr>"
  have "compute_metrics t = Inr (t3\<lparr> sharpe_ratio := sr, hands_won := s_hands_won s,
          hands_lost := s_hands_lost s, longest_win_streak := max_win s,
          longest_lose_streak := max_lose s \<rparr>)"
    using assms dd pct(1) vol(1) sr(1)
    by (simp add: compute_metrics_def Let_def t2_def [symmetric] t3_def [symmetric]
        s_def [symmetric] del: streak_step.simps)
  moreover have "volatility t2 = volatility t" "hand_results t2 = hand_results t"
      "sharpe_ratio t3 = sharpe_ratio t" "volatility t3 = vol" "max_drawdown_pct t3 = pct"
    by (simp_all add: t2_def t3_def)
  ultimately show ?thesis
    using pct(2) vol(2) sr(2) dd by auto
qed

text \<open>Claim C10: \<^verbatim>\<open>compute_metrics\<close> returns normally on every trajectory (no division
  by zero, no square root of a negative number). On a freshly constructed trajectory:
  with an empty stack history nothing is changed, so every derived metric keeps its
  zero default; the drawdown percentage is 0 when the running peak is 0; the
  volatility is 0 when there are fewer than two hand results; and the Sharpe-like
  ratio is 0 when the volatility is 0.\<close>

theorem compute_metrics_total:
  "(\<exists>t'. compute_metrics t = Inr t') \<and>
   (\<exists>t'. compute_metrics (new_trajectory nm st init sh ph hr) = Inr t'
      \<and> (sh = [] \<longrightarrow> t' = new_trajectory nm st init sh ph hr)
      \<and> (fst (drawdown_scan init 0 sh) = 0 \<longrightarrow> max_drawdown_pct t' = 0)
      \<and> (length hr < 2 \<longrightarrow> volatility t' = 0)
      \<and> (volatility t' = 0 \<longrightarrow> sharpe_ratio t' = 0))"
proof
  show "\<exists>t'. compute_metrics t = Inr t'"
  proof (cases "stack_history t = []")
    case True
    then show ?thesis by (simp add: compute_metrics_def)
  next
    case False
    then show ?thesis using compute_metrics_nonempty by blast
  qed
next
  let ?T = "new_trajectory nm st init sh ph hr"
  have fields: "stack_history ?T = sh" "hand_results ?T = hr" "initial_stack ?T = init"
      "volatility ?T = 0" "sharpe_ratio ?T = 0" "max_drawdown_pct ?T = 0"
    by (simp_all add: new_trajectory_def)
  show "\<exists>t'. compute_metrics ?T = Inr t'
      \<and> (sh = [] \<longrightarrow> t' = ?T)
      \<and> (fst (drawdown_scan init 0 sh) = 0 \<longrightarrow> max_drawdown_pct t' = 0)
      \<and> (length hr < 2 \<longrightarrow> volatility t' = 0)
      \<and> (volatility t' = 0 \<longrightarrow> sharpe_ratio t' = 0)"
  proof (cases "sh = []")
    case True
    then show ?thesis by (simp add: compute_metrics_def new_trajectory_def)
  next
    case False
    then show ?thesis
      using compute_metrics_nonempty [of ?T] fields by auto
  qed
qed

theorem compute_metrics_total_witness:
  "(\<exists>t'. compute_metrics (new_trajectory ''A'' ''TAG'' 0 [] [] [5]) = Inr t'
      \<and> t' = new_trajectory ''A'' ''TAG'' 0 [] [] [5]
      \<and> max_drawdown_pct t' = 0 \<and> volatility t' = 0 \<and> sharpe_ratio t' = 0) \<and>
   (\<exists>t'. compute_metrics (new_trajectory ''A'' ''TAG'' 0 [0, 0] [] [5]) = Inr t'
      \<and> max_drawdown_pct t' = 0 \<and> volatility t' = 0 \<and> sharpe_ratio t' = 0)"
  using compute_metrics_total [of "new_trajectory ''A'' ''TAG'' 0 [] [] [5]" "''A''" "''TAG''" 0 "[]" "[]" "[5]"]
    compute_metrics_total [of "new_trajectory ''A'' ''TAG'' 0 [0, 0] [] [5]" "''A''" "''TAG''" 0 "[0, 0]" "[]" "[5]"]
  by auto

subsection \<open>Hand-strength scorer\<close>

text \<open>Claim C2: for every list of hole cards, also the empty list and lists with
  elements that are not cards, \<^verbatim>\<open>score_omaha_hand\<close> returns a value between 0 and 100
  inclusive, and on the empty list it returns exactly 25.\<close>

theorem score_omaha_hand_bounds:
  "0 \<le> score_omaha_hand hole_cards \<and> score_omaha_hand hole_cards \<le> 100
     \<and> score_omaha_hand [] = 25"
  by (auto simp: score_omaha_hand_def Let_def split: option.splits)

theorem score_omaha_hand_bounds_witness:
  "0 \<le> score_omaha_hand [Card ''A'' ''s'', NotACard]
     \<and> score_omaha_hand [Card ''A'' ''s'', NotACard] \<le> 100
     \<and> 0 \<le> score_omaha_hand [Card ''A'' ''s'', Card ''K'' ''s'', Card ''Q'' ''h'', Card ''J'' ''h'']
     \<and> score_omaha_hand [Card ''A'' ''s'', Card ''K'' ''s'', Card ''Q'' ''h'', Card ''J'' ''h''] \<le> 100
     \<and> score_omaha_hand [] = 25"
  using score_omaha_hand_bounds [of "[Card ''A'' ''s'', NotACard]"]
    score_omaha_hand_bounds [of "[Card ''A'' ''s'', Card ''K'' ''s'', Card ''Q'' ''h'', Card ''J'' ''h'']"]
  by blast

lemma read_cards_wellformed:
  "NotACard \<notin> set cs \<Longrightarrow>
   read_cards cs ranks suits = Some (ranks @ map rank_of cs, suits @ map suit_of cs)"
proof (induction cs arbitrary: ranks suits)
  case Nil
  then show ?case by simp
next
  case (Cons c cs)
  then show ?case by (cases c) (simp_all add: rank_of_def suit_of_def)
qed

lemma count_list_pos: "x \<in> set xs \<Longrightarrow> 1 \<le> count_list xs x"
  by (induction xs) auto

lemma count_list_two:
  "i < length xs \<Longrightarrow> j < length xs \<Longrightarrow> i \<noteq> j \<Longrightarrow> xs ! i = xs ! j \<Longrightarrow> 2 \<le> count_list xs (xs ! i)"
proof (induction xs arbitrary: i j)
  case Nil
  then show ?case by simp
next
  case (Cons a xs)
  show ?case
  proof (cases i)
    case 0
    then obtain j' where j: "j = Suc j'" using Cons.prems(3) by (cases j) auto
    then have "a \<in> set xs" using Cons.prems 0 by (auto simp: in_set_conv_nth)
    then show ?thesis using 0 count_list_pos [of a xs] by simp
  next
    case (Suc i')
    show ?thesis
    proof (cases j)
      case 0
      then have "a \<in> set xs" using Cons.prems Suc by (auto simp: in_set_conv_nth)
      then show ?thesis using 0 Suc Cons.prems count_list_pos [of a xs] by simp
    next
      case (Suc j')
      then have "2 \<le> count_list xs (xs ! i')"
        using Cons.IH [of i' j'] Cons.prems \<open>i = Suc i'\<close> by simp
      then show ?thesis using \<open>i = Suc i'\<close> by simp
    qed
  qed
qed

lemma fold_max_ge_init:
  fixes a :: "'a::linorder"
  shows "a \<le> fold max xs a"
proof (induction xs arbitrary: a)
  case Nil
  then show ?case by simp
next
  case (Cons x xs)
  have "a \<le> max x a" by simp
  also have "\<dots> \<le> fold max xs (max x a)" by (rule Cons.IH)
  finally show ?case by simp
qed

lemma fold_max_ge_mem:
  fixes x :: "'a::linorder"
  shows "x \<in> set xs \<Longrightarrow> x \<le> fold max xs a"
proof (induction xs arbitrary: a)
  case Nil
  then show ?case by simp
next
  case (Cons y ys)
  show ?case
  proof (cases "x = y")
    case True
    have "x \<le> max y a" using True by simp
    also have "\<dots> \<le> fold max ys (max y a)" by (rule fold_max_ge_init)
    finally show ?thesis by simp
  next
    case False
    then show ?thesis using Cons by simp
  qed
qed

lemma fold_max_hd_tl_ge:
  fixes x :: "'a::linorder"
  assumes "x \<in> set xs"
  shows "x \<le> fold max (tl xs) (hd xs)"
proof (cases xs)
  case Nil
  then show ?thesis using assms by simp
next
  case (Cons y ys)
  then show ?thesis
    using assms fold_max_ge_init [of y ys] fold_max_ge_mem [of x ys y] by auto
qed

lemma suitedness_value_le: "suitedness_value suits \<le> 15"
  by (simp add: suitedness_value_def Let_def)

lemma suitedness_value_ge:
  assumes "i < length suits" "j < length suits" "i \<noteq> j" "suits ! i = suits ! j"
  shows "8 \<le> suitedness_value suits"
proof -
  have "2 \<le> count_list suits (suits ! i)"
    using assms by (rule count_list_two)
  moreover have "count_list suits (suits ! i) \<in> set (suit_counts suits)"
    using assms(1) by (simp add: suit_counts_def)
  ultimately have "2 \<le> fold max (tl (suit_counts suits)) (hd (suit_counts suits))"
    using fold_max_hd_tl_ge order_trans by blast
  then show ?thesis
    by (simp add: suitedness_value_def Let_def)
qed

lemma suited_ace_iff:
  "suited_ace ranks suits \<longleftrightarrow>
     (\<exists>i < length ranks. ranks ! i = 14 \<and> (\<exists>j < length ranks. j \<noteq> i \<and> suits ! i = suits ! j))"
  unfolding suited_ace_def list_ex_iff set_upt Bex_def atLeastLessThan_iff by simp


lemma clamp_mono: "(x::real) \<le> y \<Longrightarrow> min 100 (max 0 x) \<le> min 100 (max 0 y)"
  by auto

text \<open>Claim C9: take a four-card hand with two Aces in which each Ace shares its
  suit with a lower card, and a second hand with the same ranks, card by card, in which
  no Ace shares its suit with another hole card. The first hand scores at least as high
  as the second. (Ranks and suits are the ones the scorer reads off the cards.)\<close>

theorem suited_aces_score_monotone:
  assumes wf: "NotACard \<notin> set h" "NotACard \<notin> set h'"
    and ranks: "map rank_of h' = map rank_of h"
    and len: "length h = 4"
    and two_aces: "count_list (map rank_of h) 14 = 2"
    and suited: "\<forall>i<4. rank_of (h ! i) = 14 \<longrightarrow>
                   (\<exists>j<4. rank_of (h ! j) < 14 \<and> suit_of (h ! j) = suit_of (h ! i))"
    and unsuited: "\<forall>i<4. \<forall>j<4. rank_of (h' ! i) = 14 \<and> j \<noteq> i \<longrightarrow>
                   suit_of (h' ! j) \<noteq> suit_of (h' ! i)"
  shows "score_omaha_hand h' \<le> score_omaha_hand h"
proof -
  let ?r = "map rank_of h" and ?s = "map suit_of h" and ?s' = "map suit_of h'"
  have len': "length h' = 4"
    using ranks len by (metis length_map)
  have rd: "read_cards h [] [] = Some (?r, ?s)" "read_cards h' [] [] = Some (?r, ?s')"
    using wf ranks by (simp_all add: read_cards_wellformed)
  have "14 \<in> set ?r"
    using two_aces by (metis count_list_0_iff zero_neq_numeral)
  then obtain i where i: "i < 4" "rank_of (h ! i) = 14"
    using len by (auto simp: in_set_conv_nth)
  then obtain j where j: "j < 4" "rank_of (h ! j) < 14" "suit_of (h ! j) = suit_of (h ! i)"
    using suited by blast
  have ij: "i \<noteq> j" using i j by auto
  have ri: "?r ! i = 14" "?s ! i = ?s ! j"
    using i j len by simp_all
  have lt: "i < length ?r" "j < length ?r"
    using i(1) j(1) len by simp_all
  have "\<exists>a<length ?r. ?r ! a = 14 \<and> (\<exists>b<length ?r. b \<noteq> a \<and> ?s ! a = ?s ! b)"
    using lt ri ij by blast
  then have sa: "suited_ace ?r ?s"
    by (simp only: suited_ace_iff)
  have nsa: "\<not> suited_ace ?r ?s'"
  proof
    assume "suited_ace ?r ?s'"
    then obtain a b where "a < 4" "b < 4" "rank_of (h ! a) = 14" "b \<noteq> a"
        "suit_of (h' ! a) = suit_of (h' ! b)"
      unfolding suited_ace_iff using len len' by auto
    moreover have "rank_of (h' ! a) = rank_of (h ! a)"
      using ranks len len' \<open>a < 4\<close> by (metis nth_map)
    ultimately show False using unsuited by metis
  qed
  have ge: "8 \<le> suitedness_value ?s"
    using suitedness_value_ge [of i ?s j] i j ij len by simp
  have le: "suitedness_value ?s' \<le> 15"
    by (rule suitedness_value_le)
  have nut: "nut_value ?r ?s = nut_value ?r ?s' + 7"
    using sa nsa \<open>14 \<in> set ?r\<close> by (simp add: nut_value_def)
  have ne: "h \<noteq> []" "h' \<noteq> []" using len len' by auto
  have "high_card_value ?r + pairs_value ?r + suitedness_value ?s' + connectivity_value ?r
          + nut_value ?r ?s'
        \<le> high_card_value ?r + pairs_value ?r + suitedness_value ?s + connectivity_value ?r
          + nut_value ?r ?s"
    using ge le nut by linarith
  then show ?thesis
    using ne rd by (simp add: score_omaha_hand_def Let_def clamp_mono del: min_less_iff_conj)
qed

theorem suited_aces_score_monotone_witness:
  "score_omaha_hand [Card ''A'' ''c'', Card ''7'' ''s'', Card ''A'' ''d'', Card ''2'' ''h'']
     \<le> score_omaha_hand [Card ''A'' ''s'', Card ''7'' ''s'', Card ''A'' ''h'', Card ''2'' ''h'']"
  using suited_aces_score_monotone
    [of "[Card ''A'' ''s'', Card ''7'' ''s'', Card ''A'' ''h'', Card ''2'' ''h'']"
        "[Card ''A'' ''c'', Card ''7'' ''s'', Card ''A'' ''d'', Card ''2'' ''h'']"]
  by (simp add: rank_of_def suit_of_def RANK_VALUES_def SUIT_CONVERT_def
      sym_club_def sym_diamond_def sym_heart_def sym_spade_def
      eval_nat_numeral All_less_Suc Ex_less_Suc)

subsection \<open>Statistical planner\<close>

text \<open>Claim C6: for a non-zero effect size, \<^verbatim>\<open>calculate_sample_size_needed\<close> returns
  \<open>2 * ((z_conf + z_power) * stdDev / effectSize)\<^sup>2\<close> rounded up to an integer, where
  \<open>z_conf\<close> is 1.96 at confidence 0.95 and 2.58 at 0.99, and \<open>z_power\<close> is 0.84 at
  power 0.80 and 1.28 at 0.90. At effect size 5, standard deviation 100, confidence
  0.95 and power 0.80 this is the ceiling of \<open>2 * ((1.96 + 0.84) * 100 / 5)\<^sup>2\<close>,
  that is 6272.\<close>

theorem sample_size_formula:
  "effect \<noteq> 0 \<Longrightarrow>
     calculate_sample_size_needed effect stdev 0.95 0.80 = Inr \<lceil>2 * ((1.96 + 0.84) * stdev / effect) ^ 2\<rceil>
   \<and> calculate_sample_size_needed effect stdev 0.95 0.90 = Inr \<lceil>2 * ((1.96 + 1.28) * stdev / effect) ^ 2\<rceil>
   \<and> calculate_sample_size_needed effect stdev 0.99 0.80 = Inr \<lceil>2 * ((2.58 + 0.84) * stdev / effect) ^ 2\<rceil>
   \<and> calculate_sample_size_needed effect stdev 0.99 0.90 = Inr \<lceil>2 * ((2.58 + 1.28) * stdev / effect) ^ 2\<rceil>
   \<and> calculate_sample_size_needed 5 100 0.95 0.80 = Inr \<lceil>2 * ((1.96 + 0.84) * 100 / 5) ^ 2 :: real\<rceil>
   \<and> calculate_sample_size_needed 5 100 0.95 0.80 = Inr 6272"
  by (simp add: calculate_sample_size_needed_def py_div_def Let_def)

theorem sample_size_formula_witness:
  "calculate_sample_size_needed 10 80 0.99 0.90 = Inr \<lceil>2 * ((2.58 + 1.28) * 80 / 10) ^ 2 :: real\<rceil>
   \<and> calculate_sample_size_needed 5 100 0.95 0.80 = Inr 6272"
  using sample_size_formula [of 10 80] by simp

subsection \<open>Voluntary participation is counted once per hand\<close>

lemma vpip_state_count_action [simp]: "vpip_state (count_action a p) = vpip_state p"
  by (simp add: vpip_state_def count_action_def)

lemma vpip_state_note_api_error [simp]: "vpip_state (note_api_error p) = vpip_state p"
  by (simp add: vpip_state_def note_api_error_def)

lemma vpip_state_advisor_calls [simp]: "vpip_state (p\<lparr>advisor_calls := x\<rparr>) = vpip_state p"
  by (simp add: vpip_state_def)

lemma vpip_state_streets [simp]: "vpip_state (p\<lparr>streets := x\<rparr>) = vpip_state p"
  by (simp add: vpip_state_def)

lemma heuristic_vpip [simp]:
  "vpip_state (fst (snd (heuristic e p w call pot stk mnr mxr))) = vpip_state p"
  by (simp add: heuristic_def Let_def draw_def)

lemma raise_to_optimal_vpip [simp]:
  "vpip_state (fst (snd (raise_to_optimal p w sizing mnr mxr))) = vpip_state p"
  by (simp add: raise_to_optimal_def split: sizing_field.split)

lemma style_action_vpip [simp]:
  "vpip_state (fst (snd (style_action e p w action sizing call pot stk mnr mxr))) = vpip_state p"
  by (simp add: style_action_def Let_def draw_def)

lemma postflop_vpip [simp]:
  "vpip_state (fst (snd (postflop e p w hole board call pot stk mnr mxr street num_p hand_num)))
     = vpip_state p"
  by (simp add: postflop_def Let_def split_beta
      split: sum.split oracle_reply.split action_field.split)


lemma vpip_advance_refl: "vpip_state p' = vpip_state p \<Longrightarrow> vpip_advance p p'"
  by (simp add: vpip_advance_def vpip_state_def)

lemma vpip_advance_trans: "vpip_advance p q \<Longrightarrow> vpip_advance q r \<Longrightarrow> vpip_advance p r"
  unfolding vpip_advance_def
  by (cases "vpip_this_hand p"; cases "vpip_this_hand q"; cases "vpip_this_hand r") simp_all

lemma vpip_advance_streets [simp]: "vpip_advance (p\<lparr>streets := x\<rparr>) q = vpip_advance p q"
  by (simp add: vpip_advance_def)

lemma note_vpip_advance [simp]: "vpip_advance p (note_vpip p)"
  by (simp add: vpip_advance_def note_vpip_def)

lemma vpip_advance_count_action [simp]:
  "vpip_advance p (count_action a q) = vpip_advance p q"
  by (simp add: vpip_advance_def count_action_def)

lemma vpip_advance_same [simp]: "vpip_advance p p"
  by (simp add: vpip_advance_def)

lemma preflop_vpip:
  "vpip_advance p (fst (snd (preflop e p w hole call pot stk mnr mxr num_p hand_num)))"
  by (simp add: preflop_def Let_def draw_def split: sum.split)

lemma preflop_streets_vpip [simp]:
  "vpip_advance p (fst (snd (preflop e (p\<lparr>streets := x\<rparr>) w hole call pot stk mnr mxr num_p hand_num)))"
  using preflop_vpip [of "p\<lparr>streets := x\<rparr>"] by simp

lemma postflop_streets_vpip [simp]:
  "vpip_advance p (fst (snd (postflop e (p\<lparr>streets := x\<rparr>) w hole board call pot stk mnr mxr
      street num_p hand_num)))"
  by (rule vpip_advance_refl) simp

lemma vpip_advance_streets_right [simp]: "vpip_advance p (q\<lparr>streets := x\<rparr>) = vpip_advance p q"
  by (simp add: vpip_advance_def)

lemma decide_vpip:
  "vpip_advance p (fst (snd (decide e p w obs street_idx num_p hand_num)))"
  by (simp add: decide_def Let_def split_beta split: sum.split)

lemma play_points_vpip:
  "vpip_advance p (fst (snd (snd (play_points e num_p hand_num p w pts))))"
proof (induction pts arbitrary: p w)
  case Nil
  show ?case by simp
next
  case (Cons pt pts)
  obtain obs street_idx where pt: "pt = (obs, street_idx)" by (cases pt)
  obtain r p1 w1 where d: "decide e p w obs street_idx num_p hand_num = (r, p1, w1)"
    using prod_cases3 by blast
  have adv: "vpip_advance p p1"
    using decide_vpip [of p e w obs street_idx num_p hand_num] d by simp
  show ?case
  proof (cases r)
    case (Inl x)
    then show ?thesis using pt d adv by simp
  next
    case (Inr dd)
    have "vpip_advance p1 (fst (snd (snd (play_points e num_p hand_num p1 w1 pts))))"
      by (rule Cons.IH)
    then have "vpip_advance p (fst (snd (snd (play_points e num_p hand_num p1 w1 pts))))"
      using adv vpip_advance_trans by blast
    then show ?thesis using pt d Inr by (simp add: split_beta)
  qed
qed

text \<open>Claim C5: within one hand (\<^verbatim>\<open>new_hand\<close> followed by any sequence of decision
  points, preflop or postflop, with any observations, random draws and advisor
  replies) the voluntary-participation counter grows by at most one, whichever branch
  of \<^verbatim>\<open>_preflop\<close> records the entry; it grows by one exactly if the per-hand flag ends
  up set, and \<^verbatim>\<open>new_hand\<close> resets that flag.\<close>

theorem vpip_once_per_hand:
  assumes "play_hand_of e num_p hand_num p w pts = (ds, err, p', w')"
  shows "\<not> vpip_this_hand (new_hand p)
         \<and> vpip_hands p \<le> vpip_hands p' \<and> vpip_hands p' \<le> vpip_hands p + 1
         \<and> (vpip_hands p' = vpip_hands p + 1 \<longleftrightarrow> vpip_this_hand p')"
proof -
  have "vpip_advance (new_hand p) p'"
    using play_points_vpip [of "new_hand p" e num_p hand_num w pts] assms
    by (simp add: play_hand_of_def)
  then show ?thesis
    by (auto simp: vpip_advance_def new_hand_def split: if_splits)
qed

theorem vpip_once_per_hand_witness:
  "vpip_hands (fst (snd (snd (play_hand_of (failing_env 0.9) 2 0 (lag_player True) world0
      [(preflop_obs, 0), (preflop_obs, 0), (flop_obs, 1)])))) = 1
   \<and> fst (play_hand_of (failing_env 0.9) 2 0 (lag_player True) world0
      [(preflop_obs, 0), (preflop_obs, 0), (flop_obs, 1)]) = [(Call, 2), (Call, 2), (Call, 4)]"
proof -
  let ?X = "play_hand_of (failing_env 0.9) 2 0 (lag_player True) world0
      [(preflop_obs, 0), (preflop_obs, 0), (flop_obs, 1)]"
  have flag: "vpip_this_hand (fst (snd (snd ?X)))" by code_simp
  have start: "vpip_hands (lag_player True) = 0" by code_simp
  have ds: "fst ?X = [(Call, 2), (Call, 2), (Call, 4)]" by code_simp
  have "?X = (fst ?X, fst (snd ?X), fst (snd (snd ?X)), snd (snd (snd ?X)))" by simp
  from vpip_once_per_hand [OF this] flag start ds show ?thesis by simp
qed

subsection \<open>Fallback when the advisor fails\<close>

lemma mark_reads [simp]:
  "sd (mark f x p) = sd p" "style (mark f x p) = style p" "idx (mark f x p) = idx p"
  "variant (mark f x p) = variant p" "threshold (mark f x p) = threshold p"
  "streets (mark f x p) = streets p" "fast_mode (mark f x p) = f" "api_errors (mark f x p) = x"
  by (simp_all add: mark_def)

lemma mark_mark [simp]: "mark f x (mark g y p) = mark f x p"
  by (simp add: mark_def)

lemma count_action_mark [simp]: "count_action a (mark f x p) = mark f x (count_action a p)"
  by (simp add: mark_def count_action_def)

lemma note_vpip_mark [simp]: "note_vpip (mark f x p) = mark f x (note_vpip p)"
  by (simp add: mark_def note_vpip_def)

lemma new_hand_mark [simp]: "new_hand (mark f x p) = mark f x (new_hand p)"
  by (simp add: mark_def new_hand_def)

lemma streets_update_mark [simp]: "(mark f x p)\<lparr>streets := s\<rparr> = mark f x (p\<lparr>streets := s\<rparr>)"
  by (simp add: mark_def)

lemma note_api_error_mark [simp]: "note_api_error (mark f x p) = mark f (x + 1) p"
  by (simp add: mark_def note_api_error_def)

lemma position_mark [simp]: "position (mark f x p) num_p hand_num = position p num_p hand_num"
  by (simp add: position_def Let_def)

lemma with_calls_reads [simp]:
  "draws_used (with_calls c w) = draws_used w" "calls_made (with_calls c w) = c"
  by (simp_all add: with_calls_def)

lemma with_calls_with_calls [simp]: "with_calls c (with_calls d w) = with_calls c w"
  by (simp add: with_calls_def)

lemma draw_with_calls [simp]:
  "draw e (with_calls c w) = (fst (draw e w), with_calls c (snd (draw e w)))"
  by (simp add: draw_def with_calls_def)

lemma frame_count_action [simp]:
  "fast_mode (count_action a p) = fast_mode p" "api_errors (count_action a p) = api_errors p"
  by (simp_all add: count_action_def)

lemma frame_note_vpip [simp]:
  "fast_mode (note_vpip p) = fast_mode p" "api_errors (note_vpip p) = api_errors p"
  by (simp_all add: note_vpip_def)

lemma frame_draw [simp]: "calls_made (snd (draw e w)) = calls_made w"
  by (simp add: draw_def)

lemma heuristic_mark:
  "heuristic e (mark f x p) (with_calls c w) call pot stk mnr mxr =
     (fst (heuristic e p w call pot stk mnr mxr),
      mark f x (fst (snd (heuristic e p w call pot stk mnr mxr))),
      with_calls c (snd (snd (heuristic e p w call pot stk mnr mxr))))"
  by (simp add: heuristic_def Let_def split_beta cong: option.case_cong)

lemma heuristic_frame:
  "fast_mode (fst (snd (heuristic e p w call pot stk mnr mxr))) = fast_mode p"
  "api_errors (fst (snd (heuristic e p w call pot stk mnr mxr))) = api_errors p"
  "calls_made (snd (snd (heuristic e p w call pot stk mnr mxr))) = calls_made w"
  by (simp_all add: heuristic_def Let_def split_beta)

lemma preflop_mark:
  "preflop e (mark f x p) (with_calls c w) hole call pot stk mnr mxr num_p hand_num =
     (fst (preflop e p w hole call pot stk mnr mxr num_p hand_num),
      mark f x (fst (snd (preflop e p w hole call pot stk mnr mxr num_p hand_num))),
      with_calls c (snd (snd (preflop e p w hole call pot stk mnr mxr num_p hand_num))))"
  by (simp add: preflop_def Let_def split_beta split: sum.split)

lemma preflop_frame:
  "fast_mode (fst (snd (preflop e p w hole call pot stk mnr mxr num_p hand_num))) = fast_mode p"
  "api_errors (fst (snd (preflop e p w hole call pot stk mnr mxr num_p hand_num))) = api_errors p"
  "calls_made (snd (snd (preflop e p w hole call pot stk mnr mxr num_p hand_num))) = calls_made w"
  by (simp_all add: preflop_def Let_def split_beta split: sum.split)


lemma with_calls_bump [simp]:
  "(with_calls c w)\<lparr>calls_made := d\<rparr> = with_calls d w"
  by (simp add: with_calls_def)

lemma frame_streets [simp]:
  "fast_mode (p\<lparr>streets := s\<rparr>) = fast_mode p" "api_errors (p\<lparr>streets := s\<rparr>) = api_errors p"
  by simp_all

lemma postflop_fast:
  "fast_mode p \<Longrightarrow>
     postflop e p w hole brd call pot stk mnr mxr street num_p hand_num
       = heuristic e p w call pot stk mnr mxr"
  by (simp add: postflop_def)

lemma postflop_failing:
  assumes "\<forall>n q. advisor e n q = Failed" "\<not> fast_mode p"
  shows "postflop e p w hole brd call pot stk mnr mxr street num_p hand_num =
     (if 3 \<le> length brd
      then heuristic e (note_api_error p)
             (case build_query p hole brd call pot stk street num_p hand_num of
                Inl err \<Rightarrow> w | Inr gs \<Rightarrow> w\<lparr>calls_made := Suc (calls_made w)\<rparr>)
             call pot stk mnr mxr
      else heuristic e p w call pot stk mnr mxr)"
  using assms by (simp add: postflop_def Let_def split: sum.split)

lemma postflop_sim:
  assumes fail: "\<forall>n q. advisor e n q = Failed" and fast: "fast_mode q"
  shows "\<exists>c'. c \<le> c' \<and> c' \<le> c + (if 3 \<le> length brd then 1 else 0)
     \<and> postflop e (mark False x q) (with_calls c w) hole brd call pot stk mnr mxr street num_p hand_num
       = (fst (postflop e q w hole brd call pot stk mnr mxr street num_p hand_num),
          mark False (x + (if 3 \<le> length brd then 1 else 0))
            (fst (snd (postflop e q w hole brd call pot stk mnr mxr street num_p hand_num))),
          with_calls c' (snd (snd (postflop e q w hole brd call pot stk mnr mxr street num_p hand_num))))"
proof (cases "3 \<le> length brd")
  case False
  have "postflop e (mark False x q) (with_calls c w) hole brd call pot stk mnr mxr street num_p hand_num
          = heuristic e (mark False x q) (with_calls c w) call pot stk mnr mxr"
    using False by (simp add: postflop_failing [OF fail])
  then show ?thesis
    using False by (intro exI [of _ c]) (simp add: heuristic_mark postflop_fast [OF fast])
next
  case True
  define c' where "c' = (case build_query (mark False x q) hole brd call pot stk street num_p hand_num of
                           Inl err \<Rightarrow> c | Inr gs \<Rightarrow> Suc c)"
  have w': "(case build_query (mark False x q) hole brd call pot stk street num_p hand_num of
               Inl err \<Rightarrow> with_calls c w
             | Inr gs \<Rightarrow> (with_calls c w)\<lparr>calls_made := Suc (calls_made (with_calls c w))\<rparr>)
            = with_calls c' w"
    by (simp add: c'_def split: sum.split)
  have bounds: "c \<le> c'" "c' \<le> c + 1"
    by (simp_all add: c'_def split: sum.split)
  have "postflop e (mark False x q) (with_calls c w) hole brd call pot stk mnr mxr street num_p hand_num
          = heuristic e (mark False (x + 1) q) (with_calls c' w) call pot stk mnr mxr"
    using True by (simp add: postflop_failing [OF fail] w')
  then show ?thesis
    using True bounds by (intro exI [of _ c']) (simp add: heuristic_mark postflop_fast [OF fast])
qed


lemma decide_frame:
  assumes "fast_mode q"
  shows "fast_mode (fst (snd (decide e q w obs street_idx num_p hand_num)))"
    and "api_errors (fst (snd (decide e q w obs street_idx num_p hand_num))) = api_errors q"
    and "calls_made (snd (snd (decide e q w obs street_idx num_p hand_num))) = calls_made w"
  using assms
  by (simp_all add: decide_def Let_def split_beta postflop_fast heuristic_frame preflop_frame
      split: sum.split)

lemma decide_sim:
  assumes fail: "\<forall>n q. advisor e n q = Failed" and fast: "fast_mode q"
  shows "\<exists>c'. c \<le> c'
     \<and> c' \<le> c + (if \<not> isl (fst (decide e q w obs street_idx num_p hand_num))
                         \<and> advisor_point (obs, street_idx) then 1 else 0)
     \<and> decide e (mark False x q) (with_calls c w) obs street_idx num_p hand_num
       = (fst (decide e q w obs street_idx num_p hand_num),
          mark False (x + (if \<not> isl (fst (decide e q w obs street_idx num_p hand_num))
                            \<and> advisor_point (obs, street_idx) then 1 else 0))
            (fst (snd (decide e q w obs street_idx num_p hand_num))),
          with_calls c' (snd (snd (decide e q w obs street_idx num_p hand_num))))"
proof -
  let ?street = "case STREET_NAMES street_idx of None \<Rightarrow> ''preflop'' | Some s \<Rightarrow> s"
  let ?q0 = "q\<lparr> streets := (streets q)(?street := streets q ?street + 1) \<rparr>"
  let ?stk = "case o_stacks obs of None \<Rightarrow> Inr 200 | Some l \<Rightarrow> py_index l (idx q)"
  have fast0: "fast_mode ?q0" using fast by simp
  have stk_eq: "(case o_stacks obs of None \<Rightarrow> Inr 200 | Some l \<Rightarrow> py_index l (idx (mark False x q)))
                  = ?stk"
    by (simp cong: option.case_cong)
  show ?thesis
  proof (cases ?stk)
    case (Inl err)
    then show ?thesis
      by (intro exI [of _ c]) (simp add: decide_def Let_def stk_eq)
  next
    case (Inr stk)
    show ?thesis
    proof (cases "street_idx = 0")
      case True
      then show ?thesis
        using Inr
        by (intro exI [of _ c]) (simp add: decide_def Let_def stk_eq preflop_mark advisor_point_def)
    next
      case False
      let ?R = "postflop e ?q0 w (o_hole_cards obs) (o_community_cards obs) (o_call obs)
                  (o_pot obs) stk (o_min_raise obs) (o_max_raise obs) ?street num_p hand_num"
      obtain c' where c': "c \<le> c'"
          "c' \<le> c + (if 3 \<le> length (o_community_cards obs) then 1 else 0)"
          "postflop e (mark False x ?q0) (with_calls c w) (o_hole_cards obs) (o_community_cards obs)
             (o_call obs) (o_pot obs) stk (o_min_raise obs) (o_max_raise obs) ?street num_p hand_num
           = (fst ?R, mark False (x + (if 3 \<le> length (o_community_cards obs) then 1 else 0))
                        (fst (snd ?R)), with_calls c' (snd (snd ?R)))"
        using postflop_sim [OF fail fast0] by blast
      have d: "decide e q w obs street_idx num_p hand_num = (Inr (fst ?R), fst (snd ?R), snd (snd ?R))"
        using Inr False by (simp add: decide_def Let_def split_beta)
      have d': "decide e (mark False x q) (with_calls c w) obs street_idx num_p hand_num
                 = (Inr (fst ?R), mark False (x + (if 3 \<le> length (o_community_cards obs) then 1 else 0))
                        (fst (snd ?R)), with_calls c' (snd (snd ?R)))"
        using Inr False c'(3) by (simp add: decide_def Let_def stk_eq)
      show ?thesis
        using c'(1,2) False
        by (intro exI [of _ c']) (simp add: d d' advisor_point_def)
    qed
  qed
qed


lemma play_points_frame:
  assumes "fast_mode q"
  shows "fast_mode (fst (snd (snd (play_points e num_p hand_num q w pts))))
       \<and> api_errors (fst (snd (snd (play_points e num_p hand_num q w pts)))) = api_errors q
       \<and> calls_made (snd (snd (snd (play_points e num_p hand_num q w pts)))) = calls_made w"
  using assms
proof (induction pts arbitrary: q w)
  case Nil
  then show ?case by simp
next
  case (Cons pt pts)
  obtain obs street_idx where pt: "pt = (obs, street_idx)" by (cases pt)
  obtain r q1 w1 where d: "decide e q w obs street_idx num_p hand_num = (r, q1, w1)"
    using prod_cases3 by blast
  have f1: "fast_mode q1" "api_errors q1 = api_errors q" "calls_made w1 = calls_made w"
    using decide_frame [OF Cons.prems, of e w obs street_idx num_p hand_num] d by simp_all
  show ?case
  proof (cases r)
    case (Inl err)
    then show ?thesis using pt d f1 by simp
  next
    case (Inr dd)
    then show ?thesis using pt d f1 Cons.IH [OF f1(1), of w1] by (simp add: split_beta)
  qed
qed

lemma play_points_sim:
  assumes fail: "\<forall>n q. advisor e n q = Failed" and fast: "fast_mode q"
  shows "\<exists>c'. c \<le> c'
     \<and> c' \<le> c + length (filter advisor_point
                       (take (length (fst (play_points e num_p hand_num q w pts))) pts))
     \<and> play_points e num_p hand_num (mark False x q) (with_calls c w) pts
       = (fst (play_points e num_p hand_num q w pts),
          fst (snd (play_points e num_p hand_num q w pts)),
          mark False (x + int (length (filter advisor_point
                       (take (length (fst (play_points e num_p hand_num q w pts))) pts))))
            (fst (snd (snd (play_points e num_p hand_num q w pts)))),
          with_calls c' (snd (snd (snd (play_points e num_p hand_num q w pts)))))"
  using fast
proof (induction pts arbitrary: q w x c)
  case Nil
  show ?case by (intro exI [of _ c]) simp
next
  case (Cons pt pts)
  obtain obs street_idx where pt: "pt = (obs, street_idx)" by (cases pt)
  obtain r q1 w1 where d: "decide e q w obs street_idx num_p hand_num = (r, q1, w1)"
    using prod_cases3 by blast
  define k :: nat where "k = (if \<not> isl r \<and> advisor_point (obs, street_idx) then 1 else 0)"
  obtain c1 where c1: "c \<le> c1" "c1 \<le> c + k"
      "decide e (mark False x q) (with_calls c w) obs street_idx num_p hand_num
         = (r, mark False (x + int k) q1, with_calls c1 w1)"
    using decide_sim [OF fail Cons.prems, of c w obs street_idx num_p hand_num x] d
    by (auto simp: k_def)
  show ?case
  proof (cases r)
    case (Inl err)
    then have k0: "k = 0" by (simp add: k_def)
    show ?thesis
      using Inl pt d c1 k0 by (intro exI [of _ c1]) simp
  next
    case (Inr dd)
    then have k1: "k = (if advisor_point pt then 1 else 0)" by (simp add: k_def pt)
    have f1: "fast_mode q1"
      using decide_frame(1) [OF Cons.prems, of e w obs street_idx num_p hand_num] d by simp
    let ?PP = "play_points e num_p hand_num q1 w1 pts"
    let ?N = "length (filter advisor_point (take (length (fst ?PP)) pts))"
    obtain c2 where c2: "c1 \<le> c2" "c2 \<le> c1 + ?N"
        "play_points e num_p hand_num (mark False (x + int k) q1) (with_calls c1 w1) pts
           = (fst ?PP, fst (snd ?PP), mark False (x + int k + int ?N) (fst (snd (snd ?PP))),
              with_calls c2 (snd (snd (snd ?PP))))"
      using Cons.IH [OF f1, of c1 w1 "x + int k"] by blast
    have whole: "play_points e num_p hand_num q w (pt # pts)
                   = (dd # fst ?PP, fst (snd ?PP), fst (snd (snd ?PP)), snd (snd (snd ?PP)))"
      using pt d Inr by (simp add: split_beta)
    have count: "length (filter advisor_point (take (length (dd # fst ?PP)) (pt # pts))) = k + ?N"
      by (simp add: k1)
    have whole': "play_points e num_p hand_num (mark False x q) (with_calls c w) (pt # pts)
                   = (dd # fst ?PP, fst (snd ?PP), mark False (x + int (k + ?N)) (fst (snd (snd ?PP))),
                      with_calls c2 (snd (snd (snd ?PP))))"
      using pt c1(3) Inr c2(3) by (simp add: add.assoc)
    show ?thesis
      unfolding whole whole' fst_conv snd_conv count
      using c1(1,2) c2(1,2) by (intro exI [of _ c2]) simp
  qed
qed

lemma sb_postflop_failing:
  assumes "\<forall>n q. sb_advisor se n q = SBFailed"
  shows "postflop_action se pl w va hole rs
           = (fallback_action va, note_sb_error pl, w\<lparr>calls_made := Suc (calls_made w)\<rparr>)"
  using assms by (simp add: postflop_action_def Let_def)


text \<open>Claim C3: let every advisor call fail. For one hand of an Omaha player (the same
  decision points, the same random draws), the decisions made in oracle mode are
  exactly the decisions made in heuristic mode (\<^verbatim>\<open>fast_mode\<close>), and so is the exception,
  if any, that leaves \<^verbatim>\<open>decide\<close> (the advisor's failure itself never does: \<^verbatim>\<open>_postflop\<close>
  always returns a decision). The two final states differ only in the mode flag and
  in the error counter, which in oracle mode has grown by one for every decision
  point that turned to the advisor, so by at least the number of calls made; in
  heuristic mode no call is made and no error is counted. The style-based player has
  no heuristic mode: on a failed call its \<^verbatim>\<open>_postflop_action\<close> returns call-if-free-else-fold,
  and counts one error.\<close>

theorem oracle_failure_falls_back_to_heuristic:
  assumes fail: "\<forall>n q. advisor e n q = Failed"
    and sb_fail: "\<forall>n q. sb_advisor se n q = SBFailed"
    and oracle_run: "play_hand_of e num_p hand_num (p\<lparr>fast_mode := False\<rparr>) w pts = (ds, err, p', w')"
    and heuristic_run: "play_hand_of e num_p hand_num (p\<lparr>fast_mode := True\<rparr>) w pts = (ds_h, err_h, p_h, w_h)"
  shows "ds = ds_h \<and> err = err_h
       \<and> p' = p_h\<lparr>fast_mode := False,
                     api_errors := api_errors p + int (length (filter advisor_point (take (length ds) pts)))\<rparr>
       \<and> api_errors p_h = api_errors p
       \<and> draws_used w' = draws_used w_h
       \<and> calls_made w_h = calls_made w
       \<and> int (calls_made w') - int (calls_made w) \<le> api_errors p' - api_errors p
       \<and> postflop_action se pl v va hole rs
            = (fallback_action va, note_sb_error pl, v\<lparr>calls_made := Suc (calls_made v)\<rparr>)
       \<and> stat_api_errors (stats (note_sb_error pl)) = stat_api_errors (stats pl) + 1"
proof -
  let ?q = "new_hand (p\<lparr>fast_mode := True\<rparr>)"
  let ?PP = "play_points e num_p hand_num ?q w pts"
  let ?N = "length (filter advisor_point (take (length (fst ?PP)) pts))"
  have fast: "fast_mode ?q" by (simp add: new_hand_def)
  have start: "new_hand (p\<lparr>fast_mode := False\<rparr>) = mark False (api_errors p) ?q"
    by (simp add: mark_def new_hand_def)
  have w0: "w = with_calls (calls_made w) w"
    by (simp add: with_calls_def)
  have hr: "?PP = (ds_h, err_h, p_h, w_h)"
    using heuristic_run by (simp add: play_hand_of_def)
  obtain c' where c': "calls_made w \<le> c'" "c' \<le> calls_made w + ?N"
      "play_points e num_p hand_num (mark False (api_errors p) ?q) (with_calls (calls_made w) w) pts
         = (fst ?PP, fst (snd ?PP), mark False (api_errors p + int ?N) (fst (snd (snd ?PP))),
            with_calls c' (snd (snd (snd ?PP))))"
    using play_points_sim [OF fail fast, of "calls_made w" num_p hand_num w pts "api_errors p"]
    by blast
  have "play_hand_of e num_p hand_num (p\<lparr>fast_mode := False\<rparr>) w pts
          = (ds_h, err_h, mark False (api_errors p + int ?N) p_h, with_calls c' w_h)"
    using c'(3) hr start w0 by (simp add: play_hand_of_def)
  then have res: "ds = ds_h" "err = err_h" "p' = mark False (api_errors p + int ?N) p_h"
      "w' = with_calls c' w_h"
    using oracle_run by simp_all
  have frame: "api_errors p_h = api_errors p" "calls_made w_h = calls_made w"
    using play_points_frame [OF fast, of e num_p hand_num w pts] hr
    by (simp_all add: new_hand_def)
  have n: "?N = length (filter advisor_point (take (length ds) pts))"
    using hr res(1) by simp
  have "int (calls_made w') - int (calls_made w) \<le> api_errors p' - api_errors p"
    using res(3,4) c'(1,2) by simp
  then show ?thesis
    using res frame n sb_postflop_failing [OF sb_fail]
    by (simp add: mark_def with_calls_def note_sb_error_def)
qed

theorem oracle_failure_falls_back_to_heuristic_witness:
  "fst (play_hand_of (failing_env 0.9) 2 0 (lag_player False) world0 [(preflop_obs, 0), (flop_obs, 1)])
     = fst (play_hand_of (failing_env 0.9) 2 0 (lag_player True) world0 [(preflop_obs, 0), (flop_obs, 1)])
   \<and> fst (play_hand_of (failing_env 0.9) 2 0 (lag_player True) world0 [(preflop_obs, 0), (flop_obs, 1)])
     = [(Call, 2), (Call, 4)]
   \<and> api_errors (fst (snd (snd (play_hand_of (failing_env 0.9) 2 0 (lag_player False) world0
        [(preflop_obs, 0), (flop_obs, 1)])))) = 1
   \<and> api_errors (fst (snd (snd (play_hand_of (failing_env 0.9) 2 0 (lag_player True) world0
        [(preflop_obs, 0), (flop_obs, 1)])))) = 0"
proof -
  let ?pts = "[(preflop_obs, 0), (flop_obs, 1)]"
  let ?O = "play_hand_of (failing_env 0.9) 2 0 ((lag_player True)\<lparr>fast_mode := False\<rparr>) world0 ?pts"
  let ?H = "play_hand_of (failing_env 0.9) 2 0 ((lag_player True)\<lparr>fast_mode := True\<rparr>) world0 ?pts"
  have h1: "\<forall>n q. advisor (failing_env 0.9) n q = Failed"
    by (simp add: failing_env_def)
  have h2: "\<forall>n q. sb_advisor (sb_failing_env 0.9) n q = SBFailed"
    by (simp add: sb_failing_env_def)
  have h3: "?O = (fst ?O, fst (snd ?O), fst (snd (snd ?O)), snd (snd (snd ?O)))" by simp
  have h4: "?H = (fst ?H, fst (snd ?H), fst (snd (snd ?H)), snd (snd (snd ?H)))" by simp
  have pf: "(lag_player True)\<lparr>fast_mode := False\<rparr> = lag_player False"
      "(lag_player True)\<lparr>fast_mode := True\<rparr> = lag_player True"
    by (simp_all add: lag_player_def reset_stats_def)
  have ds: "fst ?H = [(Call, 2), (Call, 4)]" unfolding pf by code_simp
  have n: "length (filter advisor_point (take (length [(Call, 2 :: int), (Call, 4)]) ?pts)) = 1"
    by code_simp
  have a0: "api_errors (lag_player True) = 0" by code_simp
  show ?thesis
    using oracle_failure_falls_back_to_heuristic [OF h1 h2 h3 h4] ds n a0
    unfolding pf by simp
qed

subsection \<open>Amounts of the returned decisions\<close>

lemma clamp_range:
  fixes mnr mxr x :: int
  assumes "mnr \<le> mxr"
  shows "mnr \<le> max mnr (min x mxr)" "max mnr (min x mxr) \<le> mxr"
    "mnr \<le> max mnr (min mxr x)" "max mnr (min mxr x) \<le> mxr"
    "mnr \<le> max (min x mxr) mnr" "max (min x mxr) mnr \<le> mxr"
  using assms by auto

lemma heuristic_legal: "omaha_legal call mnr mxr (fst (heuristic e p w call pot stk mnr mxr))"
  by (simp add: heuristic_def Let_def split_beta omaha_legal_def clamp_range)

lemma raise_to_optimal_legal:
  "mnr \<le> mxr \<Longrightarrow>
     (case fst (raise_to_optimal p w sizing mnr mxr) of
        Inl err \<Rightarrow> True | Inr d \<Rightarrow> omaha_legal call mnr mxr d)"
  by (simp add: raise_to_optimal_def omaha_legal_def clamp_range split: sizing_field.split)

lemma style_action_legal:
  "case fst (style_action e p w action sizing call pot stk mnr mxr) of
     Inl err \<Rightarrow> True | Inr d \<Rightarrow> omaha_legal call mnr mxr d"
  by (simp add: style_action_def Let_def split_beta raise_to_optimal_legal)
    (simp add: omaha_legal_def)


lemma postflop_legal:
  "omaha_legal call mnr mxr (fst (postflop e p w hole brd call pot stk mnr mxr street num_p hand_num))"
proof -
  have sa: "omaha_legal call mnr mxr d"
    if "fst (style_action e q v action sizing call pot stk mnr mxr) = Inr d" for q v action sizing d
  proof -
    have "case fst (style_action e q v action sizing call pot stk mnr mxr) of
            Inl err \<Rightarrow> True | Inr d \<Rightarrow> omaha_legal call mnr mxr d"
      by (rule style_action_legal)
    then show ?thesis using that by simp
  qed
  show ?thesis
    by (simp add: postflop_def Let_def split_beta heuristic_legal sa
        split: sum.split oracle_reply.split action_field.split)
qed

lemma preflop_legal:
  "case fst (preflop e p w hole call pot stk mnr mxr num_p hand_num) of
     Inl err \<Rightarrow> True | Inr d \<Rightarrow> omaha_legal call mnr mxr d"
  by (simp add: preflop_def Let_def split_beta omaha_legal_def clamp_range split: sum.split)

lemma decide_legal:
  "case fst (decide e p w obs street_idx num_p hand_num) of
     Inl err \<Rightarrow> True
   | Inr d \<Rightarrow> omaha_legal (o_call obs) (o_min_raise obs) (o_max_raise obs) d"
proof -
  let ?street = "case STREET_NAMES street_idx of None \<Rightarrow> ''preflop'' | Some s \<Rightarrow> s"
  let ?p0 = "p\<lparr> streets := (streets p)(?street := streets p ?street + 1) \<rparr>"
  show ?thesis
  proof (cases "case o_stacks obs of None \<Rightarrow> Inr 200 | Some l \<Rightarrow> py_index l (idx p)")
    case (Inl err)
    then show ?thesis by (simp add: decide_def Let_def)
  next
    case (Inr stk)
    show ?thesis
    proof (cases "street_idx = 0")
      case True
      have "decide e p w obs street_idx num_p hand_num
              = preflop e ?p0 w (o_hole_cards obs) (o_call obs) (o_pot obs) stk
                  (o_min_raise obs) (o_max_raise obs) num_p hand_num"
        using Inr True by (simp add: decide_def Let_def)
      then show ?thesis by (simp only: preflop_legal)
    next
      case False
      have "fst (decide e p w obs street_idx num_p hand_num)
              = Inr (fst (postflop e ?p0 w (o_hole_cards obs) (o_community_cards obs) (o_call obs)
                       (o_pot obs) stk (o_min_raise obs) (o_max_raise obs) ?street num_p hand_num))"
        using Inr False by (simp add: decide_def Let_def split_beta)
      then show ?thesis by (simp add: postflop_legal)
    qed
  qed
qed


lemma fallback_legal: "sb_legal va (fallback_action va)"
  by (simp add: fallback_action_def sb_legal_def split: option.split)

lemma execute_action_legal:
  "raise_range_ok va \<Longrightarrow>
     (case execute_action action sizing va of None \<Rightarrow> True | Some d \<Rightarrow> sb_legal va d)"
  by (auto simp: execute_action_def Let_def sb_legal_def raise_range_ok_def clamp_range
      split: option.splits)

lemma apply_style_adjustment_legal:
  assumes "raise_range_ok va"
  shows "case fst (apply_style_adjustment se pl v advisor_action confidence sizing va) of
           None \<Rightarrow> True | Some d \<Rightarrow> sb_legal va d"
proof -
  have ex: "sb_legal va d" if "execute_action advisor_action sizing va = Some d" for d
    using execute_action_legal [OF assms, of advisor_action sizing] that by simp
  have rs: "sb_legal va (Raise, max mn (min x mx))" "sb_legal va (Raise, max (min x mx) mn)"
    if "raise_action_of va = Some (mn, mx)" for mn mx x
    using assms that by (simp_all add: sb_legal_def raise_range_ok_def clamp_range)
  have cl: "sb_legal va (Call, the (call_action_of va))" if "call_action_of va \<noteq> None"
    using that by (auto simp: sb_legal_def)
  show ?thesis
    by (auto simp: apply_style_adjustment_def Let_def split_beta ex rs cl
        split: option.split)
qed

lemma preflop_action_legal:
  assumes "raise_range_ok va"
  shows "sb_legal va (fst (preflop_action se pl v va cards rs))"
proof -
  have rs: "sb_legal va (Raise, max (min x mx) mn)"
    if "raise_action_of va = Some (mn, mx)" for mn mx x
    using assms that by (simp add: sb_legal_def raise_range_ok_def clamp_range)
  have cl: "sb_legal va (Call, amt)" if "call_action_of va = Some amt" for amt
    using that by (simp add: sb_legal_def)
  have fd: "sb_legal va (Fold, 0)"
    by (simp add: sb_legal_def)
  show ?thesis
    by (auto simp: preflop_action_def Let_def split_beta rs cl fd split: option.split)
qed

lemma postflop_action_legal:
  assumes "raise_range_ok va"
  shows "sb_legal va (fst (postflop_action se pl v va cards rs))"
proof -
  have ad: "sb_legal va (a, amt)"
    if "fst (apply_style_adjustment se q u action confidence sizing va) = Some (a, amt)"
    for q u action confidence sizing a amt
  proof -
    have "case fst (apply_style_adjustment se q u action confidence sizing va) of
            None \<Rightarrow> True | Some d \<Rightarrow> sb_legal va d"
      using assms by (rule apply_style_adjustment_legal)
    then show ?thesis using that by simp
  qed
  show ?thesis
    by (auto simp: postflop_action_def Let_def split_beta fallback_legal ad
        split: sb_reply.split action_field.split conf_field.split option.split)
qed

lemma declare_action_legal:
  assumes "raise_range_ok va"
  shows "sb_legal va (fst (declare_action se pl v va cards rs))"
  by (simp add: declare_action_def Let_def preflop_action_legal [OF assms]
      postflop_action_legal [OF assms])


text \<open>Claim C1, as amended: every decision either policy returns is a fold, a call or
  a raise. A call carries exactly the legal call amount, and a raise carries an amount
  within the legal raise range (for the style-based player: whenever the raise entry
  of the legal-action set has \<open>min \<le> max\<close>; the Omaha player checks that itself and
  otherwise calls). A fold carries amount 0 from the style-based player and the
  dealer's fold code \<open>-1\<close> from the Omaha player. This holds before and after the
  flop, for every style, every random draw and every advisor reply.\<close>

theorem decision_amounts_legal:
  "(decide e p w obs street_idx num_p hand_num = (Inr (a, amt), p', w') \<longrightarrow>
      (a = Fold \<longrightarrow> amt = - 1) \<and> (a = Call \<longrightarrow> amt = o_call obs)
      \<and> (a = Raise \<longrightarrow> o_min_raise obs \<le> amt \<and> amt \<le> o_max_raise obs))
   \<and> (declare_action se pl v va cards rs = ((b, amt'), pl', v')
        \<and> (\<forall>mn mx. raise_action_of va = Some (mn, mx) \<longrightarrow> mn \<le> mx) \<longrightarrow>
      (b = Fold \<longrightarrow> amt' = 0) \<and> (b = Call \<longrightarrow> call_action_of va = Some amt')
      \<and> (b = Raise \<longrightarrow> (\<exists>mn mx. raise_action_of va = Some (mn, mx) \<and> mn \<le> amt' \<and> amt' \<le> mx)))"
proof (intro conjI impI)
  assume d: "decide e p w obs street_idx num_p hand_num = (Inr (a, amt), p', w')"
  have "case fst (decide e p w obs street_idx num_p hand_num) of
          Inl err \<Rightarrow> True
        | Inr d \<Rightarrow> omaha_legal (o_call obs) (o_min_raise obs) (o_max_raise obs) d"
    by (rule decide_legal)
  then have l: "omaha_legal (o_call obs) (o_min_raise obs) (o_max_raise obs) (a, amt)"
    using d by simp
  show "amt = - 1" if "a = Fold" using l that by (simp add: omaha_legal_def)
  show "amt = o_call obs" if "a = Call" using l that by (simp add: omaha_legal_def)
  show "o_min_raise obs \<le> amt" if "a = Raise" using l that by (simp add: omaha_legal_def)
  show "amt \<le> o_max_raise obs" if "a = Raise" using l that by (simp add: omaha_legal_def)
next
  assume h: "declare_action se pl v va cards rs = ((b, amt'), pl', v')
        \<and> (\<forall>mn mx. raise_action_of va = Some (mn, mx) \<longrightarrow> mn \<le> mx)"
  then have ok: "raise_range_ok va"
    by (auto simp: raise_range_ok_def split: option.split)
  have l: "sb_legal va (b, amt')"
    using declare_action_legal [OF ok, of se pl v cards rs] h by simp
  show "amt' = 0" if "b = Fold" using l that by (simp add: sb_legal_def)
  show "call_action_of va = Some amt'" if "b = Call" using l that by (simp add: sb_legal_def)
  show "\<exists>mn mx. raise_action_of va = Some (mn, mx) \<and> mn \<le> amt' \<and> amt' \<le> mx" if "b = Raise"
    using l that by (auto simp: sb_legal_def split: option.splits)
qed

theorem decision_amounts_legal_witness:
  "fst (decide (failing_env 0.1) (lag_player True) world0 preflop_obs 0 2 0) = Inr (Raise, 4)
   \<and> o_min_raise preflop_obs \<le> 4 \<and> 4 \<le> o_max_raise preflop_obs
   \<and> fst (declare_action (sb_failing_env 0.1) (the (new_style_player ''tag'' ''u1'')) world0
          example_valid_actions pocket_aces (table_with 10000 10000)) = (Raise, 40)
   \<and> (\<exists>mn mx. raise_action_of example_valid_actions = Some (mn, mx) \<and> mn \<le> 40 \<and> 40 \<le> mx)"
proof -
  let ?D = "decide (failing_env 0.1) (lag_player True) world0 preflop_obs 0 2 0"
  let ?A = "declare_action (sb_failing_env 0.1) (the (new_style_player ''tag'' ''u1'')) world0
          example_valid_actions pocket_aces (table_with 10000 10000)"
  have d1: "fst ?D = Inr (Raise, 4)" by code_simp
  have a1: "fst ?A = (Raise, 40)" by code_simp
  have d: "?D = (Inr (Raise, 4), fst (snd ?D), snd (snd ?D))"
    using d1 by (metis prod.collapse)
  have a: "?A = ((Raise, 40), fst (snd ?A), snd (snd ?A))"
    using a1 by (metis prod.collapse)
  have r: "\<forall>mn mx. raise_action_of example_valid_actions = Some (mn, mx) \<longrightarrow> mn \<le> mx"
    by (simp add: example_valid_actions_def)
  show ?thesis
    using decision_amounts_legal [of "failing_env 0.1" "lag_player True" world0 preflop_obs 0 2 0
        Raise 4 "fst (snd ?D)" "snd (snd ?D)" "sb_failing_env 0.1"
        "the (new_style_player ''tag'' ''u1'')" world0 example_valid_actions pocket_aces
        "table_with 10000 10000" Raise 40 "fst (snd ?A)" "snd (snd ?A)"]
      d a r d1 a1
    by blast
qed

text \<open>As stated, with a fold carrying amount 0 for every policy, the claim fails: an
  Omaha player facing a bet after the flop folds by returning \<open>-1\<close>.\<close>

theorem fold_amount_counterexample:
  "fst (decide (failing_env 0.1) (lag_player True) world0 flop_obs 1 2 0) = Inr (Fold, - 1)"
  by code_simp

subsection \<open>Confidence intervals\<close>

lemma sample_variance_nonneg:
  "1 < length xs \<Longrightarrow> 0 \<le> (\<Sum>x\<leftarrow>xs. (real_of_int x - m)\<^sup>2) / (real (length xs) - 1)"
  by (simp add: sum_sq_nonneg)

lemma standard_error_nonneg:
  assumes "1 < length xs"
  shows "0 \<le> standard_error xs"
proof -
  have "0 \<le> sample_stddev xs"
    unfolding sample_stddev_def using sample_variance_nonneg [OF assms] by simp
  then show ?thesis
    unfolding standard_error_def by (rule divide_nonneg_nonneg) simp
qed

lemma analyze_ci_many:
  assumes "1 < length (hand_records pl)"
  shows "analyze_ci pl =
     Inr ((sample_mean (map profit_loss (hand_records pl))
             - 1.96 * standard_error (map profit_loss (hand_records pl))) / 20 * 100,
          (sample_mean (map profit_loss (hand_records pl))
             + 1.96 * standard_error (map profit_loss (hand_records pl))) / 20 * 100)"
proof -
  let ?xs = "map profit_loss (hand_records pl)"
  have len: "1 < length ?xs" using assms by simp
  have v: "\<not> (\<Sum>x\<leftarrow>?xs. (real_of_int x - sample_mean ?xs)\<^sup>2) / (real (length ?xs) - 1) < 0"
    using sample_variance_nonneg [OF len] by (simp only: not_less)
  have n1: "real (length ?xs) - 1 \<noteq> 0" "real (length ?xs) \<noteq> 0" using len by auto
  show ?thesis
    using assms v n1
    by (simp add: analyze_ci_def Let_def py_div_def py_sqrt_def sample_mean_def
        standard_error_def sample_stddev_def of_nat_diff)
qed

lemma omaha_ci_many:
  assumes "1 < length (a_per_hand a)" "a_hands a \<noteq> 0"
  shows "omaha_ci a =
     Some (Inr ((sample_mean (a_per_hand a) - 1.96 * standard_error (a_per_hand a)) / 2 * 100,
                (sample_mean (a_per_hand a) + 1.96 * standard_error (a_per_hand a)) / 2 * 100))"
proof -
  let ?xs = "a_per_hand a"
  have v: "\<not> (\<Sum>x\<leftarrow>?xs. (real_of_int x - sample_mean ?xs)\<^sup>2) / (real (length ?xs) - 1) < 0"
    using sample_variance_nonneg [OF assms(1)] by (simp only: not_less)
  have n1: "real (length ?xs) - 1 \<noteq> 0" "real (length ?xs) \<noteq> 0" using assms(1) by auto
  show ?thesis
    using assms v n1
    by (simp add: omaha_ci_def Let_def py_div_def py_sqrt_def sample_mean_def
        standard_error_def sample_stddev_def of_nat_diff)
qed

lemma analyze_ci_one:
  assumes "length (hand_records pl) = 1" "sb_book_consistent pl"
  shows "analyze_ci pl =
     Inr (sample_mean (map profit_loss (hand_records pl)) / 20 * 100,
          sample_mean (map profit_loss (hand_records pl)) / 20 * 100)"
  using assms
  by (simp add: analyze_ci_def Let_def bb_per_100_def sb_book_consistent_def sample_mean_def)

lemma omaha_ci_one:
  assumes "length (a_per_hand a) = 1" "a_hands a = 1" "a_profit a = sum_list (a_per_hand a)"
  shows "omaha_ci a =
     Some (Inr (sample_mean (a_per_hand a) / 2 * 100, sample_mean (a_per_hand a) / 2 * 100))"
  using assms
  by (simp add: omaha_ci_def Let_def py_div_def sample_mean_def)

lemma book_count_action [simp]: "book (count_action a p) = book p"
  by (simp add: book_def count_action_def)

lemma book_note_api_error [simp]: "book (note_api_error p) = book p"
  by (simp add: book_def note_api_error_def)

lemma book_note_vpip [simp]: "book (note_vpip p) = book p"
  by (simp add: book_def note_vpip_def)

lemma book_new_hand [simp]: "book (new_hand p) = book p"
  by (simp add: book_def new_hand_def)

lemma book_advisor_calls [simp]: "book (p\<lparr>advisor_calls := x\<rparr>) = book p"
  by (simp add: book_def)

lemma book_streets [simp]: "book (p\<lparr>streets := x\<rparr>) = book p"
  by (simp add: book_def)

lemma heuristic_book [simp]:
  "book (fst (snd (heuristic e p w call pot stk mnr mxr))) = book p"
  by (simp add: heuristic_def Let_def draw_def)

lemma raise_to_optimal_book [simp]:
  "book (fst (snd (raise_to_optimal p w sizing mnr mxr))) = book p"
  by (simp add: raise_to_optimal_def split: sizing_field.split)

lemma style_action_book [simp]:
  "book (fst (snd (style_action e p w action sizing call pot stk mnr mxr))) = book p"
  by (simp add: style_action_def Let_def draw_def)

lemma postflop_book [simp]:
  "book (fst (snd (postflop e p w hole board call pot stk mnr mxr street num_p hand_num))) = book p"
  by (simp add: postflop_def Let_def split_beta
      split: sum.split oracle_reply.split action_field.split)

lemma preflop_book [simp]:
  "book (fst (snd (preflop e p w hole call pot stk mnr mxr num_p hand_num))) = book p"
  by (simp add: preflop_def Let_def draw_def split: sum.split)

lemma decide_book [simp]:
  "book (fst (snd (decide e p w obs street_idx num_p hand_num))) = book p"
  by (simp add: decide_def Let_def split_beta split: sum.split)

lemma play_points_book [simp]:
  "book (fst (snd (snd (play_points e num_p hand_num p w pts)))) = book p"
proof (induction pts arbitrary: p w)
  case Nil
  show ?case by simp
next
  case (Cons pt pts)
  obtain obs street_idx where pt: "pt = (obs, street_idx)" by (cases pt)
  obtain r p1 w1 where d: "decide e p w obs street_idx num_p hand_num = (r, p1, w1)"
    using prod_cases3 by blast
  have p1: "book p1 = book p"
    using decide_book [of e p w obs street_idx num_p hand_num] d by simp
  show ?case
  proof (cases r)
    case (Inl x)
    then show ?thesis using pt d p1 by simp
  next
    case (Inr dd)
    then show ?thesis using pt d p1 Cons.IH [of p1 w1] by (simp add: split_beta)
  qed
qed

lemma book_consistent_cong: "book q = book p \<Longrightarrow> book_consistent q = book_consistent p"
  by (simp add: book_def book_consistent_def)

lemma book_consistent_record_result:
  "book_consistent p \<Longrightarrow> book_consistent (record_result p pr)"
  by (simp add: book_consistent_def record_result_def)

lemma book_consistent_reset: "book_consistent (reset_stats p)"
  by (simp add: book_consistent_def reset_stats_def)

lemma run_hands_book_consistent:
  "book_consistent p \<Longrightarrow> book_consistent (fst (run_hands e p w hs))"
proof (induction hs arbitrary: p w)
  case Nil
  then show ?case by simp
next
  case (Cons h hs)
  obtain num_p hand_num pts outcome where h: "h = (num_p, hand_num, pts, outcome)"
    by (cases h)
  obtain ds err p1 w1 where ph: "play_hand_of e num_p hand_num p w pts = (ds, err, p1, w1)"
    using prod_cases4 by blast
  have "book (fst (snd (snd (play_hand_of e num_p hand_num p w pts)))) = book p"
    by (simp add: play_hand_of_def)
  then have "book p1 = book p"
    using ph by simp
  then have c1: "book_consistent p1"
    using Cons.prems book_consistent_cong by blast
  show ?case
  proof (cases "err = None \<and> outcome \<noteq> None")
    case True
    then obtain pr where "outcome = Some pr" by auto
    then show ?thesis
      using h ph True Cons.IH [of "record_result p1 pr" w1] c1 book_consistent_record_result
      by simp
  next
    case False
    then show ?thesis
      using h ph Cons.IH [of p1 w1] c1
      by (cases err; cases outcome) simp_all
  qed
qed

lemma fold_add_player_consistent:
  assumes "\<forall>p \<in> set ps. book_consistent p"
    and "a_hands a = int (length (a_per_hand a))" "a_profit a = sum_list (a_per_hand a)"
  shows "a_hands (fold (\<lambda>p a. add_player a p) ps a)
           = int (length (a_per_hand (fold (\<lambda>p a. add_player a p) ps a)))
         \<and> a_profit (fold (\<lambda>p a. add_player a p) ps a)
           = sum_list (a_per_hand (fold (\<lambda>p a. add_player a p) ps a))"
  using assms
proof (induction ps arbitrary: a)
  case Nil
  then show ?case by simp
next
  case (Cons p ps)
  have "a_hands (add_player a p) = int (length (a_per_hand (add_player a p)))"
       "a_profit (add_player a p) = sum_list (a_per_hand (add_player a p))"
    using Cons.prems by (simp_all add: add_player_def book_consistent_def)
  then show ?case using Cons.IH [of "add_player a p"] Cons.prems(1) by simp
qed

lemma aggregate_consistent:
  assumes "\<forall>p \<in> set players. book_consistent p"
  shows "a_hands (aggregate st players) = int (length (a_per_hand (aggregate st players)))
         \<and> a_profit (aggregate st players) = sum_list (a_per_hand (aggregate st players))"
  unfolding aggregate_def
  by (rule fold_add_player_consistent) (use assms in \<open>simp_all add: empty_agg_def\<close>)

lemma sb_book_record_action [simp]: "sb_book (record_action a amt pl) = sb_book pl"
  by (simp add: sb_book_def record_action_def)

lemma sb_book_note_sb_error [simp]: "sb_book (note_sb_error pl) = sb_book pl"
  by (simp add: sb_book_def note_sb_error_def)

lemma sb_book_current_hand [simp]: "sb_book (pl\<lparr>sb_current_hand := x\<rparr>) = sb_book pl"
  by (simp add: sb_book_def)

lemma sb_book_advisor_calls [simp]:
  "sb_book (pl\<lparr>stats := (stats pl)\<lparr>stat_advisor_calls := x\<rparr>\<rparr>) = sb_book pl"
  by (simp add: sb_book_def)

lemma sb_book_streets_reached [simp]:
  "sb_book (pl\<lparr>stats := (stats pl)\<lparr>streets_reached := x\<rparr>\<rparr>) = sb_book pl"
  by (simp add: sb_book_def)

lemma sb_book_current_hand_streets [simp]:
  "sb_book (pl\<lparr>sb_current_hand := y, stats := (stats pl)\<lparr>streets_reached := x\<rparr>\<rparr>) = sb_book pl"
  by (simp add: sb_book_def)

lemma preflop_action_book [simp]:
  "sb_book (fst (snd (preflop_action e pl w va hole rs))) = sb_book pl"
  by (simp add: preflop_action_def Let_def sb_draw_def split_beta split: option.split)

lemma postflop_action_book [simp]:
  "sb_book (fst (snd (postflop_action e pl w va hole rs))) = sb_book pl"
  by (simp add: postflop_action_def Let_def split_beta
      split: sb_reply.split action_field.split conf_field.split option.split)

lemma declare_action_book [simp]:
  "sb_book (fst (snd (declare_action e pl w va hole rs))) = sb_book pl"
proof -
  let ?pl1 = "pl\<lparr> sb_current_hand := (sb_current_hand pl)
                       \<lparr> ch_street := Some (rs_street rs), ch_hole_cards := Some hole,
                         ch_board := Some (rs_community_card rs), ch_pot := Some (rs_pot rs),
                         ch_stack_before := Some (get_my_stack pl rs) \<rparr>,
                    stats := (stats pl)\<lparr> streets_reached :=
                       (streets_reached (stats pl))(rs_street rs := streets_reached (stats pl) (rs_street rs) + 1) \<rparr> \<rparr>"
  have b: "sb_book ?pl1 = sb_book pl" by simp
  have eq: "declare_action e pl w va hole rs =
      (if length (rs_community_card rs) < 3 then preflop_action e ?pl1 w va hole rs
       else postflop_action e ?pl1 w va hole rs)"
    by (simp add: declare_action_def Let_def)
  show ?thesis
  proof (cases "length (rs_community_card rs) < 3")
    case True
    then have "declare_action e pl w va hole rs = preflop_action e ?pl1 w va hole rs"
      using eq by simp
    then show ?thesis
      using preflop_action_book [of e ?pl1 w va hole rs] b by (simp only:)
  next
    case False
    then have "declare_action e pl w va hole rs = postflop_action e ?pl1 w va hole rs"
      using eq by simp
    then show ?thesis
      using postflop_action_book [of e ?pl1 w va hole rs] b by (simp only:)
  qed
qed

lemma declare_all_book [simp]:
  "sb_book (fst (declare_all e pl w asks)) = sb_book pl"
proof (induction asks arbitrary: pl w)
  case Nil
  show ?case by simp
next
  case (Cons a asks)
  obtain va hole rs where a: "a = (va, hole, rs)" by (cases a)
  obtain d pl1 w1 where d: "declare_action e pl w va hole rs = (d, pl1, w1)"
    using prod_cases3 by blast
  have "sb_book (fst (snd (declare_action e pl w va hole rs))) = sb_book pl"
    by (rule declare_action_book)
  then have "sb_book pl1 = sb_book pl" using d by simp
  then show ?case using a d Cons.IH [of pl1 w1] by simp
qed

lemma sb_book_consistent_round:
  assumes "sb_book_consistent pl"
    and "sb_book pl1 = sb_book (receive_round_start_message pl round_count)"
  shows "sb_book_consistent (receive_round_result_message pl1 winners rs)"
  using assms
  by (simp add: sb_book_consistent_def sb_book_def receive_round_start_message_def
      receive_round_result_message_def Let_def)

lemma play_rounds_consistent:
  "sb_book_consistent pl \<Longrightarrow> sb_book_consistent (fst (play_rounds e pl w rounds))
     \<and> length (hand_records (fst (play_rounds e pl w rounds))) = length (hand_records pl) + length rounds"
proof (induction rounds arbitrary: pl w)
  case Nil
  then show ?case by simp
next
  case (Cons r rounds)
  obtain round_count asks winners rs where r: "r = (round_count, asks, winners, rs)"
    by (cases r)
  obtain pl1 w1 where da: "declare_all e (receive_round_start_message pl round_count) w asks = (pl1, w1)"
    by (cases "declare_all e (receive_round_start_message pl round_count) w asks")
  have "sb_book (fst (declare_all e (receive_round_start_message pl round_count) w asks))
          = sb_book (receive_round_start_message pl round_count)"
    by (rule declare_all_book)
  then have b1: "sb_book pl1 = sb_book (receive_round_start_message pl round_count)"
    using da by simp
  then have c: "sb_book_consistent (receive_round_result_message pl1 winners rs)"
    using Cons.prems sb_book_consistent_round by blast
  have "hand_records pl1 = hand_records pl"
    using b1 by (simp add: sb_book_def receive_round_start_message_def)
  then have len: "length (hand_records (receive_round_result_message pl1 winners rs))
                   = length (hand_records pl) + 1"
    by (simp add: receive_round_result_message_def Let_def)
  show ?case
    using r da Cons.IH [OF c, of w1] len by simp
qed

lemma new_style_player_consistent:
  "new_style_player st uuid = Some pl \<Longrightarrow> sb_book_consistent pl \<and> hand_records pl = []"
  by (auto simp: new_style_player_def sb_book_consistent_def split: option.splits)

lemma analyze_ci_brackets:
  assumes "sb_book_consistent pl" "hand_records pl \<noteq> []"
  shows "\<exists>lo hi. analyze_ci pl = Inr (lo, hi)
           \<and> lo \<le> sample_mean (map profit_loss (hand_records pl)) / 20 * 100
           \<and> sample_mean (map profit_loss (hand_records pl)) / 20 * 100 \<le> hi
           \<and> (length (hand_records pl) = 1 \<longrightarrow> lo = hi)
           \<and> (1 < length (hand_records pl) \<longrightarrow>
                lo = (sample_mean (map profit_loss (hand_records pl))
                        - 1.96 * standard_error (map profit_loss (hand_records pl))) / 20 * 100
              \<and> hi = (sample_mean (map profit_loss (hand_records pl))
                        + 1.96 * standard_error (map profit_loss (hand_records pl))) / 20 * 100)"
proof -
  let ?xs = "map profit_loss (hand_records pl)"
  show ?thesis
  proof (cases "1 < length (hand_records pl)")
    case True
    define lo where "lo = (sample_mean ?xs - 1.96 * standard_error ?xs) / 20 * 100"
    define hi where "hi = (sample_mean ?xs + 1.96 * standard_error ?xs) / 20 * 100"
    have se: "0 \<le> standard_error ?xs"
      using True by (simp add: standard_error_nonneg)
    have eq: "analyze_ci pl = Inr (lo, hi)"
      unfolding lo_def hi_def by (rule analyze_ci_many [OF True])
    have b1: "lo \<le> sample_mean ?xs / 20 * 100" and b2: "sample_mean ?xs / 20 * 100 \<le> hi"
      using se by (simp_all add: lo_def hi_def)
    have ne1: "length (hand_records pl) \<noteq> 1" using True by simp
    show ?thesis
      apply (rule exI [of _ lo], rule exI [of _ hi])
      using eq b1 b2 ne1 lo_def hi_def by blast
  next
    case False
    then have one: "length (hand_records pl) = 1"
      using assms(2) by (cases "hand_records pl") auto
    have eq: "analyze_ci pl = Inr (sample_mean ?xs / 20 * 100, sample_mean ?xs / 20 * 100)"
      by (rule analyze_ci_one [OF one assms(1)])
    show ?thesis
      apply (rule exI [of _ "sample_mean ?xs / 20 * 100"], rule exI [of _ "sample_mean ?xs / 20 * 100"])
      using eq False by simp
  qed
qed

lemma omaha_ci_brackets:
  assumes "a_hands a = int (length (a_per_hand a))" "a_profit a = sum_list (a_per_hand a)"
    and "a_per_hand a \<noteq> []"
  shows "\<exists>lo hi. omaha_ci a = Some (Inr (lo, hi))
           \<and> lo \<le> sample_mean (a_per_hand a) / 2 * 100
           \<and> sample_mean (a_per_hand a) / 2 * 100 \<le> hi
           \<and> (length (a_per_hand a) = 1 \<longrightarrow> lo = hi)
           \<and> (1 < length (a_per_hand a) \<longrightarrow>
                lo = (sample_mean (a_per_hand a) - 1.96 * standard_error (a_per_hand a)) / 2 * 100
              \<and> hi = (sample_mean (a_per_hand a) + 1.96 * standard_error (a_per_hand a)) / 2 * 100)"
proof -
  let ?xs = "a_per_hand a"
  show ?thesis
  proof (cases "1 < length (a_per_hand a)")
    case True
    define lo where "lo = (sample_mean ?xs - 1.96 * standard_error ?xs) / 2 * 100"
    define hi where "hi = (sample_mean ?xs + 1.96 * standard_error ?xs) / 2 * 100"
    have n: "a_hands a \<noteq> 0" using assms(1) True by auto
    have se: "0 \<le> standard_error ?xs"
      using True by (simp add: standard_error_nonneg)
    have eq: "omaha_ci a = Some (Inr (lo, hi))"
      unfolding lo_def hi_def by (rule omaha_ci_many [OF True n])
    have b1: "lo \<le> sample_mean ?xs / 2 * 100" and b2: "sample_mean ?xs / 2 * 100 \<le> hi"
      using se by (simp_all add: lo_def hi_def)
    have ne1: "length (a_per_hand a) \<noteq> 1" using True by simp
    show ?thesis
      apply (rule exI [of _ lo], rule exI [of _ hi])
      using eq b1 b2 ne1 lo_def hi_def by blast
  next
    case False
    then have one: "length (a_per_hand a) = 1"
      using assms(3) by (cases "a_per_hand a") auto
    then have h1: "a_hands a = 1" using assms(1) by simp
    have eq: "omaha_ci a = Some (Inr (sample_mean ?xs / 2 * 100, sample_mean ?xs / 2 * 100))"
      by (rule omaha_ci_one [OF one h1 assms(2)])
    show ?thesis
      apply (rule exI [of _ "sample_mean ?xs / 2 * 100"], rule exI [of _ "sample_mean ?xs / 2 * 100"])
      using eq False by simp
  qed
qed

text \<open>Claim C7: for every non-empty sample set, the interval computed by
  \<^verbatim>\<open>analyze_results\<close> (for a player driven through any rounds by the engine's
  callbacks) and by \<^verbatim>\<open>run_omaha_test\<close> (for a style aggregated over any players
  run through any hands) is returned without error and satisfies
  \<open>lower \<le> sample mean \<le> upper\<close>, all three in BB/100. With more than one sample it
  is the sample mean plus or minus 1.96 standard errors (sample standard deviation
  over the square root of the sample size); with exactly one sample it is a point.
  The statement is about the interval before it is rounded for display.\<close>

theorem confidence_interval_brackets_mean:
  assumes "rounds \<noteq> []"
    and "new_style_player st uuid = Some pl0"
    and "play_rounds e pl0 w rounds = (pl, w')"
    and "players = map (\<lambda>(p0, v, hs). fst (run_hands oe (reset_stats p0) v hs)) runs"
    and "a = aggregate sty players"
    and "a_per_hand a \<noteq> []"
  shows "length (hand_records pl) = length rounds
       \<and> (\<exists>lo hi. analyze_ci pl = Inr (lo, hi)
           \<and> lo \<le> sample_mean (map profit_loss (hand_records pl)) / 20 * 100
           \<and> sample_mean (map profit_loss (hand_records pl)) / 20 * 100 \<le> hi
           \<and> (length (hand_records pl) = 1 \<longrightarrow> lo = hi)
           \<and> (1 < length (hand_records pl) \<longrightarrow>
                lo = (sample_mean (map profit_loss (hand_records pl))
                        - 1.96 * standard_error (map profit_loss (hand_records pl))) / 20 * 100
              \<and> hi = (sample_mean (map profit_loss (hand_records pl))
                        + 1.96 * standard_error (map profit_loss (hand_records pl))) / 20 * 100))
       \<and> (\<exists>lo hi. omaha_ci a = Some (Inr (lo, hi))
           \<and> lo \<le> sample_mean (a_per_hand a) / 2 * 100
           \<and> sample_mean (a_per_hand a) / 2 * 100 \<le> hi
           \<and> (length (a_per_hand a) = 1 \<longrightarrow> lo = hi)
           \<and> (1 < length (a_per_hand a) \<longrightarrow>
                lo = (sample_mean (a_per_hand a) - 1.96 * standard_error (a_per_hand a)) / 2 * 100
              \<and> hi = (sample_mean (a_per_hand a) + 1.96 * standard_error (a_per_hand a)) / 2 * 100))"
proof -
  have c0: "sb_book_consistent pl0" "hand_records pl0 = []"
    using new_style_player_consistent [OF assms(2)] by simp_all
  have pc: "sb_book_consistent pl" "length (hand_records pl) = length rounds"
    using play_rounds_consistent [OF c0(1), of e w rounds] c0(2) assms(3) by simp_all
  have ne: "hand_records pl \<noteq> []" using pc(2) assms(1) by auto
  have "\<forall>p \<in> set players. book_consistent p"
    using assms(4) by (auto simp: run_hands_book_consistent book_consistent_reset)
  then have ac: "a_hands a = int (length (a_per_hand a))" "a_profit a = sum_list (a_per_hand a)"
    using aggregate_consistent [of players sty] assms(5) by simp_all
  show ?thesis
    using pc(2) analyze_ci_brackets [OF pc(1) ne] omaha_ci_brackets [OF ac assms(6)] by blast
qed

theorem confidence_interval_brackets_mean_witness:
  "length (hand_records (fst (play_rounds (sb_failing_env 0.9)
       (the (new_style_player ''tag'' ''u1'')) world0 two_rounds))) = 2
   \<and> (\<exists>lo hi. analyze_ci (fst (play_rounds (sb_failing_env 0.9)
         (the (new_style_player ''tag'' ''u1'')) world0 two_rounds)) = Inr (lo, hi)
         \<and> lo \<le> sample_mean [50, - 30] / 20 * 100 \<and> sample_mean [50, - 30] / 20 * 100 \<le> hi)
   \<and> (\<exists>lo hi. omaha_ci (aggregate ''lag''
           (map (\<lambda>(p0, v, hs). fst (run_hands (failing_env 0.9) (reset_stats p0) v hs)) two_hands))
         = Some (Inr (lo, hi))
         \<and> lo \<le> sample_mean [5, - 3] / 2 * 100 \<and> sample_mean [5, - 3] / 2 * 100 \<le> hi)"
proof -
  let ?pl0 = "the (new_style_player ''tag'' ''u1'')"
  let ?X = "play_rounds (sb_failing_env 0.9) ?pl0 world0 two_rounds"
  let ?players = "map (\<lambda>(p0, v, hs). fst (run_hands (failing_env 0.9) (reset_stats p0) v hs)) two_hands"
  let ?a = "aggregate ''lag'' ?players"
  have h1: "two_rounds \<noteq> []" by (simp add: two_rounds_def)
  have "new_style_player ''tag'' ''u1'' \<noteq> None"
    by (simp add: new_style_player_def STYLE_DEFINITIONS_def)
  then have h2: "new_style_player ''tag'' ''u1'' = Some ?pl0" by simp
  have h3: "?X = (fst ?X, snd ?X)" by simp
  have per: "a_per_hand ?a = [5, - 3]" by code_simp
  have h6: "a_per_hand ?a \<noteq> []" using per by simp
  have xs: "map profit_loss (hand_records (fst ?X)) = [50, - 30]" by code_simp
  show ?thesis
    using confidence_interval_brackets_mean [OF h1 h2 h3 refl refl h6] xs per
    by (simp add: two_rounds_def) blast
qed

subsection \<open>Head-to-head attribution\<close>

lemma accumulate_Nil [simp]: "accumulate v [] = v"
  by (simp add: accumulate_def)

lemma accumulate_append: "accumulate (accumulate v ts) us = accumulate v (ts @ us)"
  by (cases v) (simp_all add: accumulate_def)

lemma h2h_add_other: "k' \<noteq> k \<Longrightarrow> h2h_add m k delta k' = m k'"
  by (simp add: h2h_add_def)

lemma h2h_add_same: "h2h_add m k delta k = accumulate (m k) [delta]"
  by (simp add: h2h_add_def accumulate_def)

lemma h2h_opponents_entry:
  "h2h_opponents m player opps k = accumulate (m k) (opponent_terms k player opps)"
proof (induction opps arbitrary: m)
  case Nil
  show ?case by (simp add: h2h_opponents_def opponent_terms_def)
next
  case (Cons opp opps)
  let ?m1 = "if ph_name opp \<noteq> ph_name player
             then h2h_add m (ph_strategy player, ph_strategy opp) (stack_change player) else m"
  let ?t1 = "if ph_name opp \<noteq> ph_name player \<and> (ph_strategy player, ph_strategy opp) = k
             then [stack_change player] else []"
  have step: "h2h_opponents m player (opp # opps) = h2h_opponents ?m1 player opps"
    by (simp add: h2h_opponents_def)
  have terms: "opponent_terms k player (opp # opps) = ?t1 @ opponent_terms k player opps"
    by (simp add: opponent_terms_def)
  have first: "?m1 k = accumulate (m k) ?t1"
    by (simp add: h2h_add_same h2h_add_other)
  show ?case
    unfolding step terms Cons.IH [of ?m1] first accumulate_append ..
qed

lemma h2h_players_entry:
  "fold (\<lambda>player m'. h2h_opponents m' player opps) ps m k
     = accumulate (m k) (concat (map (\<lambda>player. opponent_terms k player opps) ps))"
proof (induction ps arbitrary: m)
  case Nil
  show ?case by simp
next
  case (Cons p ps)
  let ?F = "\<lambda>player m'. h2h_opponents m' player opps"
  let ?rest = "concat (map (\<lambda>player. opponent_terms k player opps) ps)"
  have "fold ?F (p # ps) m k = fold ?F ps (h2h_opponents m p opps) k"
    by simp
  also have "\<dots> = accumulate (h2h_opponents m p opps k) ?rest"
    by (rule Cons.IH)
  also have "\<dots> = accumulate (m k) (opponent_terms k p opps @ ?rest)"
    by (simp only: h2h_opponents_entry accumulate_append)
  finally show ?case by simp
qed

lemma h2h_hand_entry: "h2h_hand m hand k = accumulate (m k) (hand_terms k hand)"
  by (simp add: h2h_hand_def hand_terms_def h2h_players_entry)

lemma h2h_hands_entry:
  "fold (\<lambda>hand m. h2h_hand m hand) hs m k = accumulate (m k) (pair_terms k hs)"
proof (induction hs arbitrary: m)
  case Nil
  show ?case by (simp add: pair_terms_def)
next
  case (Cons h hs)
  let ?F = "\<lambda>hand m. h2h_hand m hand"
  have terms: "pair_terms k (h # hs) = hand_terms k h @ pair_terms k hs"
    by (simp add: pair_terms_def)
  have "fold ?F (h # hs) m k = fold ?F hs (h2h_hand m h) k"
    by simp
  also have "\<dots> = accumulate (h2h_hand m h k) (pair_terms k hs)"
    by (rule Cons.IH)
  also have "\<dots> = accumulate (m k) (hand_terms k h @ pair_terms k hs)"
    by (simp only: h2h_hand_entry accumulate_append)
  finally show ?case by (simp only: terms)
qed

lemma head_to_head_entry:
  "head_to_head hs k = (if pair_terms k hs = [] then None else Some (sum_list (pair_terms k hs)))"
  by (simp add: head_to_head_def h2h_hands_entry accumulate_def)


lemma pair_terms_same_style_empty:
  assumes "\<forall>hand \<in> set hs. distinct (map ph_strategy (rec_players hand))"
  shows "pair_terms (s, s) hs = []"
proof -
  have "opponent_terms (s, s) p (rec_players hand) = []"
    if "hand \<in> set hs" "p \<in> set (rec_players hand)" for hand p
  proof -
    have inj: "inj_on ph_strategy (set (rec_players hand))"
      using assms that(1) by (simp add: distinct_map)
    have "\<not> (ph_name opp \<noteq> ph_name p \<and> (ph_strategy p, ph_strategy opp) = (s, s))"
      if "opp \<in> set (rec_players hand)" for opp
      using inj that \<open>p \<in> set (rec_players hand)\<close> by (auto dest: inj_onD)
    then have "\<forall>opp \<in> set (rec_players hand).
        (if ph_name opp \<noteq> ph_name p \<and> (ph_strategy p, ph_strategy opp) = (s, s)
         then [stack_change p] else []) = []"
      by simp
    then show ?thesis
      unfolding opponent_terms_def concat_eq_Nil_conv by simp
  qed
  then show ?thesis
    by (simp add: pair_terms_def hand_terms_def)
qed

lemma opponent_terms_replicate:
  "opponent_terms (s1, s2) p opps =
     (if ph_strategy p = s1
      then replicate (length (filter (\<lambda>opp. ph_name opp \<noteq> ph_name p \<and> ph_strategy opp = s2) opps))
             (stack_change p)
      else [])"
  by (induction opps) (simp_all add: opponent_terms_def)

lemma length_filter_distinct_map:
  "distinct (map f xs) \<Longrightarrow> length (filter (\<lambda>x. f x = a) xs) = (if a \<in> f ` set xs then 1 else 0)"
  by (induction xs) auto

lemma concat_map_if_singleton:
  "concat (map (\<lambda>x. if P x then [g x] else []) xs) = map g (filter P xs)"
  by (induction xs) simp_all

lemma hand_terms_distinct:
  assumes ds: "distinct (map ph_strategy (rec_players hand))"
    and dn: "distinct (map ph_name (rec_players hand))"
    and ne: "s1 \<noteq> s2"
  shows "hand_terms (s1, s2) hand =
     (if s2 \<in> set (map ph_strategy (rec_players hand))
      then map stack_change (filter (\<lambda>p. ph_strategy p = s1) (rec_players hand)) else [])"
proof -
  let ?ps = "rec_players hand"
  have each: "opponent_terms (s1, s2) p ?ps =
      (if ph_strategy p = s1 \<and> s2 \<in> set (map ph_strategy ?ps) then [stack_change p] else [])"
    if p: "p \<in> set ?ps" for p
  proof (cases "ph_strategy p = s1")
    case False
    then show ?thesis by (simp add: opponent_terms_replicate)
  next
    case True
    have injn: "inj_on ph_name (set ?ps)" using dn by (simp add: distinct_map)
    have "ph_name opp \<noteq> ph_name p" if "opp \<in> set ?ps" "ph_strategy opp = s2" for opp
    proof
      assume "ph_name opp = ph_name p"
      then have "opp = p" using injn that(1) p by (auto dest: inj_onD)
      then show False using that(2) True ne by simp
    qed
    then have "filter (\<lambda>opp. ph_name opp \<noteq> ph_name p \<and> ph_strategy opp = s2) ?ps
                = filter (\<lambda>opp. ph_strategy opp = s2) ?ps"
      by (intro filter_cong) auto
    then have "length (filter (\<lambda>opp. ph_name opp \<noteq> ph_name p \<and> ph_strategy opp = s2) ?ps)
                = (if s2 \<in> ph_strategy ` set ?ps then 1 else 0)"
      using length_filter_distinct_map [OF ds, of s2] by simp
    then show ?thesis using True by (simp add: opponent_terms_replicate)
  qed
  have "hand_terms (s1, s2) hand =
      concat (map (\<lambda>p. if ph_strategy p = s1 \<and> s2 \<in> set (map ph_strategy ?ps)
                         then [stack_change p] else []) ?ps)"
    unfolding hand_terms_def using each by (intro arg_cong [where f = concat] map_cong) auto
  also have "\<dots> = map stack_change
                 (filter (\<lambda>p. ph_strategy p = s1 \<and> s2 \<in> set (map ph_strategy ?ps)) ?ps)"
    by (rule concat_map_if_singleton)
  finally show ?thesis by auto
qed

lemma hand_terms_distinct_sum:
  assumes "distinct (map ph_strategy (rec_players hand))" "distinct (map ph_name (rec_players hand))"
    and "s1 \<noteq> s2"
  shows "sum_list (hand_terms (s1, s2) hand) = (if both_present s1 s2 hand then style_delta s1 hand else 0)"
    and "hand_terms (s1, s2) hand = [] \<longleftrightarrow> \<not> both_present s1 s2 hand"
proof -
  have absent: "filter (\<lambda>p. ph_strategy p = s1) (rec_players hand) = []"
    if "s1 \<notin> set (map ph_strategy (rec_players hand))"
    using that by (auto simp: filter_empty_conv)
  show "sum_list (hand_terms (s1, s2) hand) = (if both_present s1 s2 hand then style_delta s1 hand else 0)"
    unfolding hand_terms_distinct [OF assms] both_present_def style_delta_def
    using absent by auto
  show "hand_terms (s1, s2) hand = [] \<longleftrightarrow> \<not> both_present s1 s2 hand"
    unfolding hand_terms_distinct [OF assms] both_present_def
    by (auto simp: filter_empty_conv)
qed

lemma pair_terms_distinct:
  assumes "\<forall>hand \<in> set hs. distinct (map ph_strategy (rec_players hand))
                               \<and> distinct (map ph_name (rec_players hand))"
    and "s1 \<noteq> s2"
  shows "sum_list (pair_terms (s1, s2) hs) = sum_list (map (style_delta s1) (filter (both_present s1 s2) hs))
       \<and> (pair_terms (s1, s2) hs = [] \<longleftrightarrow> \<not> list_ex (both_present s1 s2) hs)"
  using assms(1)
proof (induction hs)
  case Nil
  show ?case by (simp add: pair_terms_def)
next
  case (Cons h hs)
  have h: "distinct (map ph_strategy (rec_players h))" "distinct (map ph_name (rec_players h))"
    using Cons.prems by simp_all
  have rest: "\<forall>hand \<in> set hs. distinct (map ph_strategy (rec_players hand))
                               \<and> distinct (map ph_name (rec_players hand))"
    using Cons.prems by simp
  have terms: "pair_terms (s1, s2) (h # hs) = hand_terms (s1, s2) h @ pair_terms (s1, s2) hs"
    by (simp add: pair_terms_def)
  show ?case
    using Cons.IH [OF rest] hand_terms_distinct_sum [OF h assms(2)]
    by (simp add: terms)
qed

text \<open>Claim C8, as amended: the head-to-head entry of an ordered pair of styles is
  the sum of the first player's stack delta over every ordered pair of differently
  named players of a hand that carry the two styles, and the entry exists exactly
  if there is such a pair of players. For a session in which no two players of a
  hand share a style or a name, this is the attribution the specification describes:
  for distinct styles present together in a hand, the sum over those hands of the
  first style's stack delta, and no entry for a pair of identical styles.\<close>

theorem head_to_head_attribution:
  "head_to_head hs (s1, s2) =
     (if pair_terms (s1, s2) hs = [] then None else Some (sum_list (pair_terms (s1, s2) hs)))
   \<and> ((\<forall>hand \<in> set hs. distinct (map ph_strategy (rec_players hand))
                           \<and> distinct (map ph_name (rec_players hand)))
        \<longrightarrow> head_to_head hs = claimed_head_to_head hs)"
proof (intro conjI impI)
  show "head_to_head hs (s1, s2) =
     (if pair_terms (s1, s2) hs = [] then None else Some (sum_list (pair_terms (s1, s2) hs)))"
    by (rule head_to_head_entry)
next
  assume d: "\<forall>hand \<in> set hs. distinct (map ph_strategy (rec_players hand))
                           \<and> distinct (map ph_name (rec_players hand))"
  show "head_to_head hs = claimed_head_to_head hs"
  proof
    fix k :: "string \<times> string"
    obtain a b where k: "k = (a, b)" by (cases k)
    show "head_to_head hs k = claimed_head_to_head hs k"
    proof (cases "a = b")
      case True
      have "pair_terms (a, a) hs = []"
        using d by (intro pair_terms_same_style_empty) simp
      then show ?thesis
        using True k by (simp add: head_to_head_entry claimed_head_to_head_def)
    next
      case False
      show ?thesis
        using pair_terms_distinct [OF d False] False k
        by (simp add: head_to_head_entry claimed_head_to_head_def)
    qed
  qed
qed

theorem head_to_head_attribution_witness:
  "head_to_head [three_way_hand] (''lag'', ''tag'') = Some (- 12)
   \<and> head_to_head
        [\<lparr> rec_hand_id = 2, rec_variant = ''omaha4'', rec_num_players = 2, rec_board = [],
            rec_players = [hand_result ''tag_1'' ''tag'' 10, hand_result ''lag_2'' ''lag'' (- 10)],
            rec_pot_size = 20, rec_winners = [''tag_1''] \<rparr>]
      = claimed_head_to_head
        [\<lparr> rec_hand_id = 2, rec_variant = ''omaha4'', rec_num_players = 2, rec_board = [],
            rec_players = [hand_result ''tag_1'' ''tag'' 10, hand_result ''lag_2'' ''lag'' (- 10)],
            rec_pot_size = 20, rec_winners = [''tag_1''] \<rparr>]"
proof -
  let ?h = "\<lparr> rec_hand_id = 2, rec_variant = ''omaha4'', rec_num_players = 2, rec_board = [],
            rec_players = [hand_result ''tag_1'' ''tag'' 10, hand_result ''lag_2'' ''lag'' (- 10)],
            rec_pot_size = 20, rec_winners = [''tag_1''] \<rparr>"
  have terms: "pair_terms (''lag'', ''tag'') [three_way_hand] = [- 6, - 6]"
    by code_simp
  have d: "\<forall>hand \<in> set [?h]. distinct (map ph_strategy (rec_players hand))
                           \<and> distinct (map ph_name (rec_players hand))"
    by (simp add: hand_result_def)
  show ?thesis
    using head_to_head_attribution [of "[three_way_hand]" "''lag''" "''tag''"] terms
      head_to_head_attribution [of "[?h]" "''lag''" "''tag''"] d
    by simp
qed

text \<open>The attribution as the specification words it fails on a hand with two
  differently named players of one style: the code produces an entry for the pair
  of identical styles, and counts the third player's delta once per opponent.\<close>

theorem head_to_head_counterexample:
  "head_to_head [three_way_hand] (''tag'', ''tag'') = Some 6
   \<and> claimed_head_to_head [three_way_hand] (''tag'', ''tag'') = None
   \<and> head_to_head [three_way_hand] (''lag'', ''tag'') = Some (- 12)
   \<and> claimed_head_to_head [three_way_hand] (''lag'', ''tag'') = Some (- 6)"
  by code_simp


end
